theory Spec2Isabelle
  imports Main
begin

section \<open>Strings of the script\<close>

text \<open>
  A Python \<open>str\<close> is a sequence of code points. Every string constant of
  \<open>prepare_public_csv.py\<close> (column names, keywords, placeholders) lies in the Latin-1
  range, which is also the fallback encoding of \<open>detect_encoding\<close>; a \<^typ>\<open>char\<close> below
  is one code point of that range (U+0000 to U+00FF), so that \<open>length\<close> counts what
  Python counts. On this range \<open>str.lower\<close> and \<open>str.strip\<close> are the two functions below:
  \<open>lower\<close> moves A to Z and the capital letters U+00C0 to U+00DE (the multiplication sign
  U+00D7 apart) up by 32 and leaves the rest; \<open>strip\<close> removes the code points for which
  \<open>str.isspace\<close> holds from both ends.
\<close>

definition isspace :: "char \<Rightarrow> bool" where
  "isspace c = (of_char c \<in> {9, 10, 11, 12, 13, 28, 29, 30, 31, 32, 133, 160 :: nat})"

definition lower_char :: "char \<Rightarrow> char" where
  "lower_char c =
     (let n = (of_char c :: nat)
      in if (65 \<le> n \<and> n \<le> 90) \<or> (192 \<le> n \<and> n \<le> 222 \<and> n \<noteq> 215)
         then char_of (n + 32) else c)"

definition lower :: "string \<Rightarrow> string" where
  "lower s = map lower_char s"

definition strip :: "string \<Rightarrow> string" where
  "strip s = rev (dropWhile isspace (rev (dropWhile isspace s)))"

definition startswith :: "string \<Rightarrow> string \<Rightarrow> bool" where
  "startswith s p = (take (length p) s = p)"

text \<open>The operator \<open>sub in s\<close> on strings: \<open>sub\<close> occurs in \<open>s\<close> as a contiguous block.\<close>

fun str_in :: "string \<Rightarrow> string \<Rightarrow> bool" where
  "str_in sub [] = (sub = [])"
| "str_in sub (c # cs) = (startswith (c # cs) sub \<or> str_in sub cs)"

text \<open>\<open>str(n)\<close> of a Python integer, as the f-string of the statistics row formats it.\<close>

fun digits :: "nat \<Rightarrow> string" where
  "digits n =
     (if n < 10 then [char_of (48 + n)]
      else digits (n div 10) @ [char_of (48 + n mod 10)])"

declare digits.simps [simp del]

definition str_int :: "int \<Rightarrow> string" where
  "str_int i = (if i < 0 then CHR ''-'' # digits (nat (- i)) else digits (nat i))"

section \<open>Configuration constants\<close>

definition COL_PRENOM :: string where
  "COL_PRENOM = ''Pr'' @ [CHR 0xE9] @ ''nom''"

definition COL_NOM :: string where
  "COL_NOM = ''Nom de la famille''"

definition COL_EMAIL :: string where
  "COL_EMAIL = ''E-mail / Courriel''"

definition COL_EMAIL2 :: string where
  "COL_EMAIL2 = ''Autre courriel''"

definition COL_STATUT :: string where
  "COL_STATUT = ''Statut actuel''"

definition COL_INSTITUTION :: string where
  "COL_INSTITUTION = ''Institution / organisation 1''"

definition COL_TYPE :: string where
  "COL_TYPE = ''Type d'adhesion''"

definition COL_CONSENT :: string where
  "COL_CONSENT =
     ''Autorisez-vous le RSN '' @ [CHR 0xE0] @ '' vous cr'' @ [CHR 0xE9]
       @ ''er un profil de membre public''"

definition COLS_SENSITIVE :: "string list" where
  "COLS_SENSITIVE =
     [COL_EMAIL,
      COL_EMAIL2,
      COL_STATUT,
      COL_INSTITUTION,
      ''R'' @ [CHR 0xE9] @ ''seau 1'',
      ''Expertise'',
      ''Th'' @ [CHR 0xE8] @ ''mes d'int'' @ [CHR 0xE9] @ ''r'' @ [CHR 0xEA] @ ''t'',
      ''Projet de recherche'',
      [CHR 0xC9] @ ''tudiant.e.s'',
      ''R'' @ [CHR 0xE9] @ ''f'' @ [CHR 0xE9] @ ''r'' @ [CHR 0xE9] @ ''e par'',
      ''Droit de vote'',
      ''ORCID'',
      ''CV / LinkedIn'',
      [CHR 0xC9] @ ''valuateur du RSN - nouv. formulaire'']"

text \<open>A Python \<open>dict\<close> from \<open>str\<close> to \<open>str\<close>: a CSV row, or the placeholder table.\<close>

type_synonym pydict = "string \<rightharpoonup> string"

definition dict_get :: "pydict \<Rightarrow> string \<Rightarrow> string \<Rightarrow> string" where
  "dict_get d k dflt = (case d k of None \<Rightarrow> dflt | Some v \<Rightarrow> v)"

definition PLACEHOLDER :: pydict where
  "PLACEHOLDER =
     map_of
       [(COL_EMAIL, ''membre@rsn-placeholder.ca''),
        (COL_INSTITUTION, ''Institution non divulgu'' @ [CHR 0xE9] @ ''e''),
        (COL_STATUT, ''Non divulgu'' @ [CHR 0xE9])]"

definition STATS_ROW_MARKER :: string where
  "STATS_ROW_MARKER = ''__STATS_EXCLUDED__''"

section \<open>The objects of a run\<close>

text \<open>
  Rows are \<open>dict\<close> objects, and the lists of the script hold references to them:
  \<open>public_rows.append(row)\<close> stores the input object itself, \<open>dict(row)\<close> makes a new
  object, and \<open>masked[col] = ...\<close> writes into an object. The store is the list of all
  dict objects created so far; a reference is an index into it. \<open>read_csv\<close> creates one
  fresh \<open>cleaned\<close> dict per data row, so a run starts with the store holding exactly the
  input rows, row \<open>i\<close> at reference \<open>i\<close>.
\<close>

type_synonym ref = nat

type_synonym store = "pydict list"

definition new_dict :: "store \<Rightarrow> pydict \<Rightarrow> store \<times> ref" where
  "new_dict h d = (h @ [d], length h)"

text \<open>\<open>masked[col] = v\<close>: assignment to a key of the object at a reference.\<close>

definition setitem :: "store \<Rightarrow> ref \<Rightarrow> string \<Rightarrow> string \<Rightarrow> store" where
  "setitem h a k v = h[a := (h ! a)(k \<mapsto> v)]"

text \<open>The dict \<open>excluded_stats\<close> has four fixed keys with integer values.\<close>

record stats =
  st_total :: int
  st_regulier :: int
  st_etudiant :: int
  st_partenaire :: int

record state =
  heap :: store
  public_rows :: "ref list"
  pending_rows :: "ref list"
  excluded_stats :: stats

section \<open>The classification pass (lines 122 to 162)\<close>

text \<open>Line 134: the row has neither a first name nor a last name.\<close>

definition no_name :: "pydict \<Rightarrow> bool" where
  "no_name r =
     (strip (dict_get r COL_PRENOM '''') = [] \<and> strip (dict_get r COL_NOM '''') = [])"

text \<open>Lines 136 and 137: the local variables \<open>consent\<close> and \<open>type_adh\<close>.\<close>

definition consent :: "pydict \<Rightarrow> string" where
  "consent r = lower (strip (dict_get r COL_CONSENT ''''))"

definition type_adh :: "pydict \<Rightarrow> string" where
  "type_adh r = lower (strip (dict_get r COL_TYPE ''''))"

text \<open>Lines 145 to 151: the counters of a refusing member.\<close>

definition count_excluded :: "string \<Rightarrow> stats \<Rightarrow> stats" where
  "count_excluded t e =
     (let e1 = e\<lparr>st_total := st_total e + 1\<rparr>
      in if str_in (''r'' @ [CHR 0xE9] @ ''gulier'') t \<or> str_in ''regulier'' t
         then e1\<lparr>st_regulier := st_regulier e1 + 1\<rparr>
         else if str_in ([CHR 0xE9] @ ''tudiant'') t \<or> str_in ''etudiant'' t
         then e1\<lparr>st_etudiant := st_etudiant e1 + 1\<rparr>
         else if str_in ''partenaire'' t
         then e1\<lparr>st_partenaire := st_partenaire e1 + 1\<rparr>
         else e1)"

text \<open>Lines 159 to 161: the loop over \<open>COLS_SENSITIVE\<close>, writing into the object \<open>masked\<close>.\<close>

primrec mask_cols :: "string list \<Rightarrow> ref \<Rightarrow> store \<Rightarrow> store" where
  "mask_cols [] masked h = h"
| "mask_cols (col # cols) masked h =
     mask_cols cols masked
       (if (h ! masked) col \<noteq> None
        then setitem h masked col (dict_get PLACEHOLDER col '''')
        else h)"

text \<open>Lines 133 to 162: the body of the loop, for the row object at reference \<open>row\<close>.\<close>

definition visit :: "ref \<Rightarrow> state \<Rightarrow> state" where
  "visit row s =
     (let r = heap s ! row
      in if no_name r then s
         else if startswith (consent r) ''oui''
         then s\<lparr>public_rows := public_rows s @ [row]\<rparr>
         else if startswith (consent r) ''non''
         then s\<lparr>excluded_stats := count_excluded (type_adh r) (excluded_stats s)\<rparr>
         else (let (h1, masked) = new_dict (heap s) r;
                   h2 = mask_cols COLS_SENSITIVE masked h1
               in s\<lparr>heap := h2, pending_rows := pending_rows s @ [masked]\<rparr>))"

primrec visit_all :: "ref list \<Rightarrow> state \<Rightarrow> state" where
  "visit_all [] s = s"
| "visit_all (row # rows) s = visit_all rows (visit row s)"

text \<open>Lines 123 to 162, from the rows that \<open>read_csv\<close> returned.\<close>

definition categorize :: "pydict list \<Rightarrow> state" where
  "categorize rows =
     visit_all [0 ..< length rows]
       \<lparr>heap = rows, public_rows = [], pending_rows = [],
        excluded_stats = \<lparr>st_total = 0, st_regulier = 0, st_etudiant = 0, st_partenaire = 0\<rparr>\<rparr>"

section \<open>The statistics row and the export (lines 164 to 182)\<close>

definition stats_row_dict :: "string list \<Rightarrow> stats \<Rightarrow> pydict" where
  "stats_row_dict headers e =
     (map_of (map (\<lambda>h. (h, '''')) headers))
       (COL_PRENOM \<mapsto> STATS_ROW_MARKER,
        COL_NOM \<mapsto> '''',
        COL_EMAIL \<mapsto>
          str_int (st_total e) @ '','' @ str_int (st_regulier e) @ '',''
            @ str_int (st_etudiant e) @ '','' @ str_int (st_partenaire e),
        COL_CONSENT \<mapsto> ''stats'')"

text \<open>
  Lines 165 to 177: the store after the statistics row is created, and the list
  \<open>all_public\<close> of references.
\<close>

definition assemble :: "string list \<Rightarrow> pydict list \<Rightarrow> store \<times> ref list" where
  "assemble headers rows =
     (let s = categorize rows;
          (h, stats_row) = new_dict (heap s) (stats_row_dict headers (excluded_stats s))
      in (h, public_rows s @ pending_rows s @ [stats_row]))"

text \<open>
  \<open>csv.DictWriter\<close> with \<open>extrasaction='ignore'\<close> and the default \<open>restval=''\<close> turns a
  dict into the list of cells \<open>rowdict.get(key, '')\<close> for the keys of \<open>fieldnames\<close>.
\<close>

definition dict_to_list :: "string list \<Rightarrow> pydict \<Rightarrow> string list" where
  "dict_to_list fieldnames rowdict = map (\<lambda>key. dict_get rowdict key '''') fieldnames"

type_synonym table = "string list list"

type_synonym filesystem = "string \<rightharpoonup> table"

datatype error = SystemExit int

text \<open>Lines 115 to 120: the first of the given columns that is not a header.\<close>

primrec missing_column :: "string list \<Rightarrow> string list \<Rightarrow> string option" where
  "missing_column [] headers = None"
| "missing_column (col # cols) headers =
     (if col \<notin> set headers then Some col else missing_column cols headers)"

text \<open>
  \<open>prepare_public_csv\<close> after \<open>read_csv\<close> has returned \<open>headers\<close> and \<open>rows\<close>. The file
  system maps a path to the table stored there; the console output is left out.
\<close>

definition prepare_public_csv ::
  "string list \<Rightarrow> pydict list \<Rightarrow> string \<Rightarrow> filesystem \<Rightarrow> (error + unit) \<times> filesystem" where
  "prepare_public_csv headers rows output_path fs =
     (case missing_column [COL_PRENOM, COL_NOM, COL_CONSENT] headers of
        Some col \<Rightarrow> (Inl (SystemExit 1), fs)
      | None \<Rightarrow>
          (let (h, all_public) = assemble headers rows
           in (Inr (),
               fs(output_path \<mapsto> headers # map (\<lambda>a. dict_to_list headers (h ! a)) all_public))))"

section \<open>Notions derived from the pass\<close>

text \<open>
  The content that lines 158 to 161 leave in the object \<open>masked\<close> for a row of content
  \<open>r\<close>: the loop \<open>mask_cols\<close> run on a store that holds a copy of \<open>r\<close> alone.
\<close>

definition masked_of :: "pydict \<Rightarrow> pydict" where
  "masked_of r = mask_cols COLS_SENSITIVE 0 [r] ! 0"

text \<open>The guards under which the loop body takes its three branches (lines 134, 139, 143).\<close>

definition is_public :: "pydict \<Rightarrow> bool" where
  "is_public r = (\<not> no_name r \<and> startswith (consent r) ''oui'')"

definition is_excluded :: "pydict \<Rightarrow> bool" where
  "is_excluded r =
     (\<not> no_name r \<and> \<not> startswith (consent r) ''oui'' \<and> startswith (consent r) ''non'')"

definition is_pending :: "pydict \<Rightarrow> bool" where
  "is_pending r =
     (\<not> no_name r \<and> \<not> startswith (consent r) ''oui'' \<and> \<not> startswith (consent r) ''non'')"

text \<open>
  The dict objects that \<open>public_rows\<close> and \<open>pending_rows\<close> refer to when the pass is over.
\<close>

definition public_segment :: "pydict list \<Rightarrow> pydict list" where
  "public_segment rows = map ((!) (heap (categorize rows))) (public_rows (categorize rows))"

definition pending_segment :: "pydict list \<Rightarrow> pydict list" where
  "pending_segment rows = map ((!) (heap (categorize rows))) (pending_rows (categorize rows))"

section \<open>The pass in closed form\<close>

lemma mask_cols_store:
  "masked < length h \<Longrightarrow>
   mask_cols cols masked h =
     h[masked := (\<lambda>k. if k \<in> set cols \<and> (h ! masked) k \<noteq> None
                        then Some (dict_get PLACEHOLDER k '''') else (h ! masked) k)]"
proof (induction cols arbitrary: h)
  case Nil
  then show ?case by simp
next
  case (Cons col cols)
  show ?case
  proof (cases "(h ! masked) col = None")
    case True
    have "(\<lambda>k. if k \<in> set (col # cols) \<and> (h ! masked) k \<noteq> None
               then Some (dict_get PLACEHOLDER k '''') else (h ! masked) k)
        = (\<lambda>k. if k \<in> set cols \<and> (h ! masked) k \<noteq> None
               then Some (dict_get PLACEHOLDER k '''') else (h ! masked) k)"
      using True by (auto simp: fun_eq_iff)
    with True Cons show ?thesis by simp
  next
    case False
    let ?h = "setitem h masked col (dict_get PLACEHOLDER col '''')"
    have len: "masked < length ?h" using Cons.prems by (simp add: setitem_def)
    have "mask_cols (col # cols) masked h = mask_cols cols masked ?h"
      using False by simp
    also have "\<dots> = ?h[masked := (\<lambda>k. if k \<in> set cols \<and> (?h ! masked) k \<noteq> None
                        then Some (dict_get PLACEHOLDER k '''') else (?h ! masked) k)]"
      by (rule Cons.IH [OF len])
    also have "\<dots> = h[masked := (\<lambda>k. if k \<in> set (col # cols) \<and> (h ! masked) k \<noteq> None
                        then Some (dict_get PLACEHOLDER k '''') else (h ! masked) k)]"
      using Cons.prems False by (auto simp: setitem_def fun_eq_iff intro!: arg_cong [where f = "list_update h masked"])
    finally show ?thesis .
  qed
qed

lemma masked_of_apply:
  "masked_of r k =
     (if k \<in> set COLS_SENSITIVE \<and> r k \<noteq> None then Some (dict_get PLACEHOLDER k '''') else r k)"
  by (simp add: masked_of_def mask_cols_store)

lemma mask_cols_masked_of:
  "masked < length h \<Longrightarrow> mask_cols COLS_SENSITIVE masked h = h[masked := masked_of (h ! masked)]"
  by (simp add: mask_cols_store masked_of_apply [abs_def] fun_eq_iff)

lemma visit_no_name: "no_name (heap s ! a) \<Longrightarrow> visit a s = s"
  by (simp add: visit_def)

lemma visit_public:
  "is_public (heap s ! a) \<Longrightarrow> visit a s = s\<lparr>public_rows := public_rows s @ [a]\<rparr>"
  by (simp add: visit_def is_public_def)

lemma visit_excluded:
  "is_excluded (heap s ! a) \<Longrightarrow>
   visit a s = s\<lparr>excluded_stats := count_excluded (type_adh (heap s ! a)) (excluded_stats s)\<rparr>"
  by (simp add: visit_def is_excluded_def)

lemma visit_pending:
  "is_pending (heap s ! a) \<Longrightarrow>
   visit a s = s\<lparr>heap := heap s @ [masked_of (heap s ! a)],
                 pending_rows := pending_rows s @ [length (heap s)]\<rparr>"
  by (simp add: visit_def is_pending_def new_dict_def mask_cols_masked_of)

lemma disposition_cases:
  "no_name r \<or> is_public r \<or> is_excluded r \<or> is_pending r"
  by (auto simp: is_public_def is_excluded_def is_pending_def)

text \<open>The pass, on a store that begins with the input rows.\<close>

lemma visit_all_closed:
  assumes "\<forall>a \<in> set rs. a < length rows" and "take (length rows) (heap s) = rows"
  shows "visit_all rs s =
     \<lparr>heap = heap s @ map masked_of (filter is_pending (map ((!) rows) rs)),
      public_rows = public_rows s @ filter (\<lambda>a. is_public (rows ! a)) rs,
      pending_rows = pending_rows s @
        [length (heap s) ..< length (heap s) + length (filter is_pending (map ((!) rows) rs))],
      excluded_stats =
        fold (\<lambda>r. count_excluded (type_adh r)) (filter is_excluded (map ((!) rows) rs))
          (excluded_stats s)\<rparr>"
  using assms
proof (induction rs arbitrary: s)
  case Nil
  then show ?case by simp
next
  case (Cons a rs)
  have a: "a < length rows" and rs: "\<forall>a \<in> set rs. a < length rows"
    using Cons.prems(1) by simp_all
  have "length (take (length rows) (heap s)) = length rows"
    using Cons.prems(2) by simp
  then have len: "length rows \<le> length (heap s)"
    by simp
  have ra: "heap s ! a = rows ! a"
    using a Cons.prems(2) by (metis nth_take)
  consider (n) "no_name (rows ! a)" | (pu) "is_public (rows ! a)"
    | (ex) "is_excluded (rows ! a)" | (pe) "is_pending (rows ! a)"
    using disposition_cases by blast
  then show ?case
  proof cases
    case n
    then have v: "visit a s = s" by (simp add: visit_no_name ra)
    from n have "\<not> is_public (rows ! a)" "\<not> is_excluded (rows ! a)" "\<not> is_pending (rows ! a)"
      by (simp_all add: is_public_def is_excluded_def is_pending_def)
    then show ?thesis using Cons.IH [OF rs Cons.prems(2)] v by simp
  next
    case pu
    then have v: "visit a s = s\<lparr>public_rows := public_rows s @ [a]\<rparr>"
      by (simp add: visit_public ra)
    from pu have "\<not> is_excluded (rows ! a)" "\<not> is_pending (rows ! a)"
      by (simp_all add: is_public_def is_excluded_def is_pending_def)
    then show ?thesis using Cons.IH [of "visit a s"] rs Cons.prems(2) v pu by simp
  next
    case ex
    then have v: "visit a s =
        s\<lparr>excluded_stats := count_excluded (type_adh (rows ! a)) (excluded_stats s)\<rparr>"
      using visit_excluded [of s a] by (simp add: ra)
    from ex have "\<not> is_public (rows ! a)" "\<not> is_pending (rows ! a)"
      by (simp_all add: is_public_def is_excluded_def is_pending_def)
    then show ?thesis using Cons.IH [of "visit a s"] rs Cons.prems(2) v ex by simp
  next
    case pe
    then have v: "visit a s =
        s\<lparr>heap := heap s @ [masked_of (rows ! a)],
          pending_rows := pending_rows s @ [length (heap s)]\<rparr>"
      using visit_pending [of s a] by (simp add: ra)
    from pe have no: "\<not> is_public (rows ! a)" "\<not> is_excluded (rows ! a)"
      by (simp_all add: is_public_def is_excluded_def is_pending_def)
    have tk: "take (length rows) (heap (visit a s)) = rows"
      using Cons.prems(2) len by (simp add: v)
    show ?thesis using Cons.IH [OF rs tk] no pe
      by (simp add: v upt_conv_Cons del: upt_Suc)
  qed
qed

lemma categorize_closed:
  "categorize rows =
     \<lparr>heap = rows @ map masked_of (filter is_pending rows),
      public_rows = filter (\<lambda>a. is_public (rows ! a)) [0 ..< length rows],
      pending_rows = [length rows ..< length rows + length (filter is_pending rows)],
      excluded_stats =
        fold (\<lambda>r. count_excluded (type_adh r)) (filter is_excluded rows)
          \<lparr>st_total = 0, st_regulier = 0, st_etudiant = 0, st_partenaire = 0\<rparr>\<rparr>"
  unfolding categorize_def
  by (subst visit_all_closed [where rows = rows]) (simp_all add: map_nth)

lemma nth_filter_upt:
  "map ((!) xs) (filter (\<lambda>a. P (xs ! a)) [0 ..< length xs]) = filter P xs"
proof -
  have "filter P (map ((!) xs) [0 ..< length xs]) =
        map ((!) xs) (filter (P \<circ> (!) xs) [0 ..< length xs])"
    by (rule filter_map)
  then show ?thesis by (simp add: map_nth comp_def)
qed

lemma nth_middle_upt:
  "map ((!) (xs @ ys @ zs)) [length xs ..< length xs + length ys] = ys"
  by (rule nth_equalityI) (simp_all add: nth_append)

lemma public_refs_bound:
  "a \<in> set (filter (\<lambda>a. P (rows ! a)) [0 ..< length rows]) \<Longrightarrow> a < length rows"
  by simp

lemma assemble_closed:
  "assemble headers rows =
     (rows @ map masked_of (filter is_pending rows)
        @ [stats_row_dict headers (excluded_stats (categorize rows))],
      filter (\<lambda>a. is_public (rows ! a)) [0 ..< length rows]
        @ [length rows ..< length rows + length (filter is_pending rows)]
        @ [length rows + length (filter is_pending rows)])"
  by (simp add: assemble_def new_dict_def Let_def categorize_closed)

lemma written_rows_closed:
  "map (\<lambda>a. dict_to_list headers (fst (assemble headers rows) ! a)) (snd (assemble headers rows)) =
     map (dict_to_list headers) (filter is_public rows)
       @ map (dict_to_list headers) (map masked_of (filter is_pending rows))
       @ [dict_to_list headers (stats_row_dict headers (excluded_stats (categorize rows)))]"
proof -
  let ?ms = "map masked_of (filter is_pending rows)"
  let ?st = "stats_row_dict headers (excluded_stats (categorize rows))"
  let ?h = "rows @ ?ms @ [?st]"
  have pub: "map (\<lambda>a. dict_to_list headers (?h ! a))
               (filter (\<lambda>a. is_public (rows ! a)) [0 ..< length rows]) =
             map (dict_to_list headers) (filter is_public rows)"
  proof -
    have "map (\<lambda>a. dict_to_list headers (?h ! a))
               (filter (\<lambda>a. is_public (rows ! a)) [0 ..< length rows]) =
          map (\<lambda>a. dict_to_list headers (rows ! a))
               (filter (\<lambda>a. is_public (rows ! a)) [0 ..< length rows])"
      by (rule map_cong) (simp_all add: nth_append)
    also have "\<dots> = map (dict_to_list headers)
               (map ((!) rows) (filter (\<lambda>a. is_public (rows ! a)) [0 ..< length rows]))"
      by (simp add: comp_def)
    finally show ?thesis by (simp only: nth_filter_upt)
  qed
  have "map ((!) ?h) [length rows ..< length rows + length ?ms] = ?ms"
    by (rule nth_middle_upt)
  then have "map (dict_to_list headers) (map ((!) ?h) [length rows ..< length rows + length ?ms]) =
             map (dict_to_list headers) ?ms"
    by (simp only:)
  then have pen: "map (\<lambda>a. dict_to_list headers (?h ! a))
               [length rows ..< length rows + length (filter is_pending rows)] =
             map (dict_to_list headers) ?ms"
    by (simp add: comp_def)
  have st: "?h ! (length rows + length (filter is_pending rows)) = ?st"
    by (simp add: nth_append)
  show ?thesis
    unfolding assemble_closed fst_conv snd_conv map_append
    using pub pen st by simp
qed

lemma public_segment_closed: "public_segment rows = filter is_public rows"
proof -
  have "map ((!) (rows @ map masked_of (filter is_pending rows)))
          (filter (\<lambda>a. is_public (rows ! a)) [0 ..< length rows]) =
        map ((!) rows) (filter (\<lambda>a. is_public (rows ! a)) [0 ..< length rows])"
    by (rule map_cong) (simp_all add: nth_append)
  then show ?thesis
    by (simp add: public_segment_def categorize_closed nth_filter_upt)
qed

lemma pending_segment_closed: "pending_segment rows = map masked_of (filter is_pending rows)"
  using nth_middle_upt [of rows "map masked_of (filter is_pending rows)" "[]"]
  by (simp add: pending_segment_def categorize_closed)

lemma count_excluded_commute:
  "count_excluded t (count_excluded u e) = count_excluded u (count_excluded t e)"
  by (simp add: count_excluded_def Let_def)

lemma fold_count_excluded:
  "fold (\<lambda>r. count_excluded (type_adh r)) rs (count_excluded t e) =
   count_excluded t (fold (\<lambda>r. count_excluded (type_adh r)) rs e)"
  by (induction rs arbitrary: e) (simp_all add: count_excluded_commute)

lemma excluded_stats_closed:
  "excluded_stats (categorize rows) =
     fold (\<lambda>r. count_excluded (type_adh r)) (filter is_excluded rows)
       \<lparr>st_total = 0, st_regulier = 0, st_etudiant = 0, st_partenaire = 0\<rparr>"
  by (simp add: categorize_closed)

lemma excluded_stats_insert:
  "is_excluded r \<Longrightarrow>
   excluded_stats (categorize (xs @ r # ys)) =
     count_excluded (type_adh r) (excluded_stats (categorize (xs @ ys)))"
  by (simp add: excluded_stats_closed fold_count_excluded)

lemma excluded_stats_skip:
  "\<not> is_excluded r \<Longrightarrow>
   excluded_stats (categorize (xs @ r # ys)) = excluded_stats (categorize (xs @ ys))"
  by (simp add: excluded_stats_closed)

lemma missing_column_required:
  "missing_column [COL_PRENOM, COL_NOM, COL_CONSENT] headers = None \<longleftrightarrow>
   COL_PRENOM \<in> set headers \<and> COL_NOM \<in> set headers \<and> COL_CONSENT \<in> set headers"
  by simp

lemma prepare_public_csv_closed:
  assumes "COL_PRENOM \<in> set headers" "COL_NOM \<in> set headers" "COL_CONSENT \<in> set headers"
  shows "prepare_public_csv headers rows output_path fs =
     (Inr (),
      fs(output_path \<mapsto>
        headers # map (dict_to_list headers) (filter is_public rows)
          @ map (dict_to_list headers) (map masked_of (filter is_pending rows))
          @ [dict_to_list headers (stats_row_dict headers (excluded_stats (categorize rows)))]))"
proof -
  have "missing_column [COL_PRENOM, COL_NOM, COL_CONSENT] headers = None"
    using assms by simp
  then show ?thesis
    using written_rows_closed [of headers rows]
    by (simp add: prepare_public_csv_def split_beta)
qed

lemma prepare_public_csv_alt:
  "prepare_public_csv headers rows output_path fs =
     (case missing_column [COL_PRENOM, COL_NOM, COL_CONSENT] headers of
        Some col \<Rightarrow> (Inl (SystemExit 1), fs)
      | None \<Rightarrow>
          (Inr (),
           fs(output_path \<mapsto>
             headers # map (dict_to_list headers) (filter is_public rows)
               @ map (dict_to_list headers) (map masked_of (filter is_pending rows))
               @ [dict_to_list headers
                    (stats_row_dict headers (excluded_stats (categorize rows)))])))"
  using written_rows_closed [of headers rows]
  by (simp add: prepare_public_csv_def split_beta)

lemma non_not_oui: "startswith c ''non'' \<Longrightarrow> \<not> startswith c ''oui''"
  by (auto simp: startswith_def)

lemma is_excluded_iff: "is_excluded r \<longleftrightarrow> \<not> no_name r \<and> startswith (consent r) ''non''"
  using non_not_oui by (auto simp: is_excluded_def)

lemma no_name_dispositions:
  "no_name r \<Longrightarrow> \<not> is_public r \<and> \<not> is_excluded r \<and> \<not> is_pending r"
  by (simp add: is_public_def is_excluded_def is_pending_def)

lemma dispositions_exclusive:
  "\<not> (is_public r \<and> is_excluded r)" "\<not> (is_public r \<and> is_pending r)"
  "\<not> (is_excluded r \<and> is_pending r)"
  by (auto simp: is_public_def is_excluded_def is_pending_def)

lemma count_excluded_total: "st_total (count_excluded t e) = st_total e + 1"
  by (simp add: count_excluded_def Let_def)

lemma structural_not_sensitive:
  "COL_PRENOM \<notin> set COLS_SENSITIVE" "COL_NOM \<notin> set COLS_SENSITIVE"
  "COL_CONSENT \<notin> set COLS_SENSITIVE" "COL_TYPE \<notin> set COLS_SENSITIVE"
  by code_simp+

lemma columns_distinct:
  "COL_PRENOM \<noteq> COL_NOM" "COL_PRENOM \<noteq> COL_EMAIL" "COL_PRENOM \<noteq> COL_CONSENT"
  "COL_NOM \<noteq> COL_EMAIL" "COL_NOM \<noteq> COL_CONSENT" "COL_EMAIL \<noteq> COL_CONSENT"
  by code_simp+

lemma dict_get_masked_of:
  "k \<notin> set COLS_SENSITIVE \<Longrightarrow> dict_get (masked_of r) k d = dict_get r k d"
  by (simp add: dict_get_def masked_of_apply)

lemma no_name_masked_of: "no_name (masked_of r) = no_name r"
  by (simp add: no_name_def dict_get_masked_of structural_not_sensitive)

lemma consent_masked_of: "consent (masked_of r) = consent r"
  by (simp add: consent_def dict_get_masked_of structural_not_sensitive)

lemma stats_row_dict_apply:
  "stats_row_dict headers e k =
     (if k = COL_CONSENT then Some ''stats''
      else if k = COL_EMAIL
      then Some (str_int (st_total e) @ '','' @ str_int (st_regulier e) @ '',''
                   @ str_int (st_etudiant e) @ '','' @ str_int (st_partenaire e))
      else if k = COL_NOM then Some []
      else if k = COL_PRENOM then Some STATS_ROW_MARKER
      else if k \<in> set headers then Some [] else None)"
proof -
  have m: "map_of (map (\<lambda>h. (h, [])) headers) k = (if k \<in> set headers then Some [] else None)"
    by (induction headers) simp_all
  show ?thesis
    by (simp add: stats_row_dict_def m)
qed

lemma lower_strip_stats: "lower (strip ''stats'') = ''stats''"
  by code_simp

lemma consent_stats_row: "consent (stats_row_dict headers e) = ''stats''"
  by (simp add: consent_def dict_get_def stats_row_dict_apply lower_strip_stats)

lemma strip_marker: "strip STATS_ROW_MARKER \<noteq> []"
  by code_simp

lemma no_name_stats_row: "\<not> no_name (stats_row_dict headers e)"
  using columns_distinct strip_marker
  by (simp add: no_name_def dict_get_def stats_row_dict_apply)

lemma consent_header_not_non: "\<not> startswith (lower (strip COL_CONSENT)) ''non''"
  by code_simp

lemma strip_prenom: "strip COL_PRENOM \<noteq> []"
  by code_simp

lemma dict_to_list_cell:
  assumes "k \<in> set headers" and "dict_to_list headers d = dict_to_list headers d'"
  shows "dict_get d k [] = dict_get d' k []"
  using assms by (simp add: dict_to_list_def)

lemma dict_to_list_header:
  assumes "k \<in> set headers" and "dict_to_list headers d = headers"
  shows "dict_get d k [] = k"
proof -
  from assms(2) have "map (\<lambda>key. dict_get d key []) headers = map (\<lambda>key. key) headers"
    by (simp add: dict_to_list_def)
  then have "\<forall>key \<in> set headers. dict_get d key [] = key"
    by (simp only: map_eq_conv)
  with assms(1) show ?thesis by blast
qed

lemma excluded_row_not_written:
  assumes h: "COL_CONSENT \<in> set headers" and r: "is_excluded r"
  shows "dict_to_list headers r \<notin>
           set (headers # map (dict_to_list headers) (filter is_public rows)
                  @ map (dict_to_list headers) (map masked_of (filter is_pending rows))
                  @ [dict_to_list headers (stats_row_dict headers e)])"
proof -
  have non: "startswith (consent r) ''non''"
    using r by (simp add: is_excluded_def)
  have same: "consent d = consent r" if "dict_to_list headers d = dict_to_list headers r" for d
    using dict_to_list_cell [OF h that] by (simp add: consent_def)
  have f1: "dict_to_list headers r \<noteq> headers"
  proof
    assume "dict_to_list headers r = headers"
    then have "dict_get r COL_CONSENT [] = COL_CONSENT"
      by (rule dict_to_list_header [OF h])
    then have "consent r = lower (strip COL_CONSENT)"
      by (simp add: consent_def)
    with non consent_header_not_non show False by simp
  qed
  have f2: "dict_to_list headers p \<noteq> dict_to_list headers r" if "is_public p" for p
  proof
    assume "dict_to_list headers p = dict_to_list headers r"
    then have "consent p = consent r" by (rule same)
    with that non non_not_oui show False by (simp add: is_public_def)
  qed
  have f3: "dict_to_list headers (masked_of p) \<noteq> dict_to_list headers r" if "is_pending p" for p
  proof
    assume "dict_to_list headers (masked_of p) = dict_to_list headers r"
    then have "consent (masked_of p) = consent r" by (rule same)
    with that non show False by (simp add: is_pending_def consent_masked_of)
  qed
  have f4: "dict_to_list headers (stats_row_dict headers e) \<noteq> dict_to_list headers r"
  proof
    assume "dict_to_list headers (stats_row_dict headers e) = dict_to_list headers r"
    then have "consent (stats_row_dict headers e) = consent r" by (rule same)
    then have "consent r = ''stats''" by (simp add: consent_stats_row)
    with non show False by (simp add: startswith_def)
  qed
  have "x \<noteq> dict_to_list headers r"
    if "x \<in> set (headers # map (dict_to_list headers) (filter is_public rows)
                  @ map (dict_to_list headers) (map masked_of (filter is_pending rows))
                  @ [dict_to_list headers (stats_row_dict headers e)])" for x
  proof -
    from that consider "x = headers"
      | p where "is_public p" "x = dict_to_list headers p"
      | p where "is_pending p" "x = dict_to_list headers (masked_of p)"
      | "x = dict_to_list headers (stats_row_dict headers e)"
      by auto
    then show ?thesis
    proof cases
      case 1
      with f1 show ?thesis by simp
    next
      case (2 p)
      with f2 [of p] show ?thesis by simp
    next
      case (3 p)
      with f3 [of p] show ?thesis by simp
    next
      case 4
      with f4 show ?thesis by simp
    qed
  qed
  then show ?thesis by blast
qed

lemma unnamed_row_not_written:
  assumes h: "COL_PRENOM \<in> set headers" "COL_NOM \<in> set headers" and r: "no_name r"
  shows "dict_to_list headers r \<notin>
           set (headers # map (dict_to_list headers) (filter is_public rows)
                  @ map (dict_to_list headers) (map masked_of (filter is_pending rows))
                  @ [dict_to_list headers (stats_row_dict headers e)])"
proof -
  have same: "no_name d" if "dict_to_list headers d = dict_to_list headers r" for d
    using dict_to_list_cell [OF h(1) that] dict_to_list_cell [OF h(2) that] r
    by (simp add: no_name_def)
  have f1: "dict_to_list headers r \<noteq> headers"
  proof
    assume "dict_to_list headers r = headers"
    then have "dict_get r COL_PRENOM [] = COL_PRENOM"
      by (rule dict_to_list_header [OF h(1)])
    with r strip_prenom show False by (simp add: no_name_def)
  qed
  have f2: "dict_to_list headers p \<noteq> dict_to_list headers r" if "is_public p" for p
    using same [of p] that by (auto simp: is_public_def)
  have f3: "dict_to_list headers (masked_of p) \<noteq> dict_to_list headers r" if "is_pending p" for p
    using same [of "masked_of p"] that by (auto simp: is_pending_def no_name_masked_of)
  have f4: "dict_to_list headers (stats_row_dict headers e) \<noteq> dict_to_list headers r"
    using same [of "stats_row_dict headers e"] no_name_stats_row by auto
  have "x \<noteq> dict_to_list headers r"
    if "x \<in> set (headers # map (dict_to_list headers) (filter is_public rows)
                  @ map (dict_to_list headers) (map masked_of (filter is_pending rows))
                  @ [dict_to_list headers (stats_row_dict headers e)])" for x
  proof -
    from that consider "x = headers"
      | p where "is_public p" "x = dict_to_list headers p"
      | p where "is_pending p" "x = dict_to_list headers (masked_of p)"
      | "x = dict_to_list headers (stats_row_dict headers e)"
      by auto
    then show ?thesis
    proof cases
      case 1
      with f1 show ?thesis by simp
    next
      case (2 p)
      with f2 [of p] show ?thesis by simp
    next
      case (3 p)
      with f3 [of p] show ?thesis by simp
    next
      case 4
      with f4 show ?thesis by simp
    qed
  qed
  then show ?thesis by blast
qed

lemma strip_Nil: "strip [] = []"
  by (simp add: strip_def)

lemma consent_missing:
  "r COL_CONSENT = None \<or> strip (dict_get r COL_CONSENT []) = [] \<Longrightarrow> consent r = []"
  by (auto simp: consent_def dict_get_def strip_Nil lower_def)

lemma dict_to_list_nth:
  "j < length headers \<Longrightarrow>
   dict_to_list headers d ! j = (case d (headers ! j) of None \<Rightarrow> [] | Some v \<Rightarrow> v)"
  by (simp add: dict_to_list_def dict_get_def)

lemma dict_to_list_extra_key:
  "k \<notin> set headers \<Longrightarrow> dict_to_list headers (d(k \<mapsto> v)) = dict_to_list headers d"
  by (auto simp: dict_to_list_def dict_get_def)

lemma prepare_public_csv_written:
  assumes "COL_PRENOM \<in> set headers" "COL_NOM \<in> set headers" "COL_CONSENT \<in> set headers"
  shows "snd (prepare_public_csv headers rows output_path fs) output_path =
           Some (headers # map (\<lambda>a. dict_to_list headers (fst (assemble headers rows) ! a))
                            (snd (assemble headers rows)))"
proof -
  have "missing_column [COL_PRENOM, COL_NOM, COL_CONSENT] headers = None"
    using assms by simp
  then show ?thesis
    by (simp add: prepare_public_csv_def split_beta)
qed

lemma stats_row_dict_fields:
  assumes "COL_NOM \<in> set headers"
  shows "stats_row_dict headers e k =
     (if k = COL_PRENOM then Some STATS_ROW_MARKER
      else if k = COL_EMAIL
      then Some (str_int (st_total e) @ '','' @ str_int (st_regulier e) @ '',''
                   @ str_int (st_etudiant e) @ '','' @ str_int (st_partenaire e))
      else if k = COL_CONSENT then Some ''stats''
      else if k \<in> set headers then Some [] else None)"
  using assms columns_distinct by (auto simp: stats_row_dict_apply)

lemma pending_segment_nth:
  assumes "is_pending r"
  shows "length (pending_segment xs) < length (pending_segment (xs @ r # ys))"
    and "pending_segment (xs @ r # ys) ! length (pending_segment xs) = masked_of r"
proof -
  have "pending_segment (xs @ r # ys) =
        pending_segment xs @ masked_of r # pending_segment ys"
    using assms by (simp add: pending_segment_closed)
  then show "length (pending_segment xs) < length (pending_segment (xs @ r # ys))"
    and "pending_segment (xs @ r # ys) ! length (pending_segment xs) = masked_of r"
    by simp_all
qed

lemma pending_row_written:
  assumes "COL_PRENOM \<in> set headers" "COL_NOM \<in> set headers" "COL_CONSENT \<in> set headers"
    and "i < length (pending_segment rows)"
  shows "\<exists>tab. snd (prepare_public_csv headers rows output_path fs) output_path = Some tab
           \<and> Suc (length (public_segment rows) + i) < length tab
           \<and> tab ! Suc (length (public_segment rows) + i) =
               dict_to_list headers (pending_segment rows ! i)"
proof -
  let ?A = "map (dict_to_list headers) (public_segment rows)"
  let ?B = "map (dict_to_list headers) (pending_segment rows)"
  let ?S = "dict_to_list headers (stats_row_dict headers (excluded_stats (categorize rows)))"
  let ?tab = "headers # ?A @ ?B @ [?S]"
  have "snd (prepare_public_csv headers rows output_path fs) output_path = Some ?tab"
    using assms(1-3)
    by (simp only: prepare_public_csv_closed public_segment_closed pending_segment_closed
          snd_conv fun_upd_same)
  moreover have "Suc (length (public_segment rows) + i) < length ?tab"
    using assms(4) by simp
  moreover have "?tab ! Suc (length (public_segment rows) + i) =
                 dict_to_list headers (pending_segment rows ! i)"
  proof -
    have "?tab ! Suc (length (public_segment rows) + i) = (?A @ ?B @ [?S]) ! (length ?A + i)"
      by simp
    also have "\<dots> = (?B @ [?S]) ! i"
      by (simp only: nth_append_length_plus)
    also have "\<dots> = ?B ! i"
      using assms(4) by (simp add: nth_append)
    also have "\<dots> = dict_to_list headers (pending_segment rows ! i)"
      using assms(4) by simp
    finally show ?thesis .
  qed
  ultimately show ?thesis by blast
qed

lemma placeholder_keys_distinct:
  "COL_EMAIL \<noteq> COL_INSTITUTION" "COL_EMAIL \<noteq> COL_STATUT" "COL_INSTITUTION \<noteq> COL_STATUT"
  by code_simp+

lemma placeholder_get:
  "dict_get PLACEHOLDER f [] =
     (if f = COL_EMAIL then ''membre@rsn-placeholder.ca''
      else if f = COL_INSTITUTION then ''Institution non divulgu'' @ [CHR 0xE9] @ ''e''
      else if f = COL_STATUT then ''Non divulgu'' @ [CHR 0xE9]
      else [])"
  using placeholder_keys_distinct by (simp add: dict_get_def PLACEHOLDER_def)

lemma is_pending_iff:
  "is_pending r \<longleftrightarrow>
   \<not> no_name r \<and> \<not> startswith (consent r) ''oui'' \<and> \<not> startswith (consent r) ''non''"
  by (simp add: is_pending_def)

lemma dom_masked_of: "dom (masked_of r) = dom r"
  by (auto simp: dom_def masked_of_apply)

lemma visit_keeps_objects: "take (length (heap st)) (heap (visit a st)) = heap st"
proof -
  consider "no_name (heap st ! a)" | "is_public (heap st ! a)"
    | "is_excluded (heap st ! a)" | "is_pending (heap st ! a)"
    using disposition_cases by blast
  then show ?thesis
    by cases (simp_all add: visit_no_name visit_public visit_excluded visit_pending)
qed

lemma fold_count_excluded_nonneg:
  assumes "0 \<le> st_total e \<and> 0 \<le> st_regulier e \<and> 0 \<le> st_etudiant e \<and> 0 \<le> st_partenaire e"
  shows "0 \<le> st_total (fold (\<lambda>r. count_excluded (type_adh r)) rs e)
       \<and> 0 \<le> st_regulier (fold (\<lambda>r. count_excluded (type_adh r)) rs e)
       \<and> 0 \<le> st_etudiant (fold (\<lambda>r. count_excluded (type_adh r)) rs e)
       \<and> 0 \<le> st_partenaire (fold (\<lambda>r. count_excluded (type_adh r)) rs e)"
  using assms
proof (induction rs arbitrary: e)
  case Nil
  then show ?case by simp
next
  case (Cons r rs)
  have "0 \<le> st_total (count_excluded (type_adh r) e)
      \<and> 0 \<le> st_regulier (count_excluded (type_adh r) e)
      \<and> 0 \<le> st_etudiant (count_excluded (type_adh r) e)
      \<and> 0 \<le> st_partenaire (count_excluded (type_adh r) e)"
    using Cons.prems by (simp add: count_excluded_def Let_def)
  then show ?case
    using Cons.IH [of "count_excluded (type_adh r) e"] by simp
qed

lemma excluded_stats_nonneg:
  "0 \<le> st_total (excluded_stats (categorize rows))
   \<and> 0 \<le> st_regulier (excluded_stats (categorize rows))
   \<and> 0 \<le> st_etudiant (excluded_stats (categorize rows))
   \<and> 0 \<le> st_partenaire (excluded_stats (categorize rows))"
  unfolding excluded_stats_closed by (rule fold_count_excluded_nonneg) simp

lemma str_int_decimal:
  "str_int (int n) =
     (if n < 10 then [char_of (48 + n)]
      else str_int (int (n div 10)) @ [char_of (48 + n mod 10)])"
  by (simp add: str_int_def digits.simps [of n])

lemma count_excluded_step:
  "count_excluded t e =
     \<lparr>st_total = st_total e + st_total (count_excluded t 
          \<lparr>st_total = 0, st_regulier = 0, st_etudiant = 0, st_partenaire = 0\<rparr>),
      st_regulier = st_regulier e + st_regulier (count_excluded t 
          \<lparr>st_total = 0, st_regulier = 0, st_etudiant = 0, st_partenaire = 0\<rparr>),
      st_etudiant = st_etudiant e + st_etudiant (count_excluded t 
          \<lparr>st_total = 0, st_regulier = 0, st_etudiant = 0, st_partenaire = 0\<rparr>),
      st_partenaire = st_partenaire e + st_partenaire (count_excluded t 
          \<lparr>st_total = 0, st_regulier = 0, st_etudiant = 0, st_partenaire = 0\<rparr>)\<rparr>"
  by (simp add: count_excluded_def Let_def)

lemma count_excluded_funpow:
  "(count_excluded t ^^ n) e =
     \<lparr>st_total = st_total e + int n * st_total (count_excluded t 
          \<lparr>st_total = 0, st_regulier = 0, st_etudiant = 0, st_partenaire = 0\<rparr>),
      st_regulier = st_regulier e + int n * st_regulier (count_excluded t 
          \<lparr>st_total = 0, st_regulier = 0, st_etudiant = 0, st_partenaire = 0\<rparr>),
      st_etudiant = st_etudiant e + int n * st_etudiant (count_excluded t 
          \<lparr>st_total = 0, st_regulier = 0, st_etudiant = 0, st_partenaire = 0\<rparr>),
      st_partenaire = st_partenaire e + int n * st_partenaire (count_excluded t 
          \<lparr>st_total = 0, st_regulier = 0, st_etudiant = 0, st_partenaire = 0\<rparr>)\<rparr>"
proof (induction n)
  case 0
  then show ?case by simp
next
  case (Suc n)
  have "(count_excluded t ^^ Suc n) e = count_excluded t ((count_excluded t ^^ n) e)"
    by simp
  also have "\<dots> =
     \<lparr>st_total = st_total e + int (Suc n) * st_total (count_excluded t 
          \<lparr>st_total = 0, st_regulier = 0, st_etudiant = 0, st_partenaire = 0\<rparr>),
      st_regulier = st_regulier e + int (Suc n) * st_regulier (count_excluded t 
          \<lparr>st_total = 0, st_regulier = 0, st_etudiant = 0, st_partenaire = 0\<rparr>),
      st_etudiant = st_etudiant e + int (Suc n) * st_etudiant (count_excluded t 
          \<lparr>st_total = 0, st_regulier = 0, st_etudiant = 0, st_partenaire = 0\<rparr>),
      st_partenaire = st_partenaire e + int (Suc n) * st_partenaire (count_excluded t 
          \<lparr>st_total = 0, st_regulier = 0, st_etudiant = 0, st_partenaire = 0\<rparr>)\<rparr>"
    by (subst count_excluded_step) (simp add: Suc.IH algebra_simps)
  finally show ?case .
qed

section \<open>Claims\<close>

text \<open>
  C8. If one of the three required columns (first name, last name, consent) is not in
  the header list, the run ends with \<open>sys.exit(1)\<close> whatever the rows are, before the
  pass over the rows, and the file system is left as it was: nothing is written. If all
  three are headers, the run does not take this branch: it returns normally and writes the
  output file.
\<close>

theorem missing_required_column_aborts:
  "(COL_PRENOM \<notin> set headers \<or> COL_NOM \<notin> set headers \<or> COL_CONSENT \<notin> set headers
      \<longrightarrow> prepare_public_csv headers rows output_path fs = (Inl (SystemExit 1), fs))
   \<and> (COL_PRENOM \<in> set headers \<and> COL_NOM \<in> set headers \<and> COL_CONSENT \<in> set headers
      \<longrightarrow> fst (prepare_public_csv headers rows output_path fs) = Inr ()
          \<and> snd (prepare_public_csv headers rows output_path fs) output_path \<noteq> None)"
proof (intro conjI impI)
  assume "COL_PRENOM \<notin> set headers \<or> COL_NOM \<notin> set headers \<or> COL_CONSENT \<notin> set headers"
  then have "missing_column [COL_PRENOM, COL_NOM, COL_CONSENT] headers \<noteq> None"
    by auto
  then show "prepare_public_csv headers rows output_path fs = (Inl (SystemExit 1), fs)"
    by (auto simp: prepare_public_csv_def)
next
  assume a: "COL_PRENOM \<in> set headers \<and> COL_NOM \<in> set headers \<and> COL_CONSENT \<in> set headers"
  then show "fst (prepare_public_csv headers rows output_path fs) = Inr ()"
    by (simp add: prepare_public_csv_closed)
  from a show "snd (prepare_public_csv headers rows output_path fs) output_path \<noteq> None"
    by (simp add: prepare_public_csv_closed)
qed

theorem missing_required_column_aborts_witness:
  "COL_CONSENT \<notin> set [COL_PRENOM, COL_NOM]
   \<and> prepare_public_csv [COL_PRENOM, COL_NOM] [[COL_PRENOM \<mapsto> ''Ada'']] ''out.csv'' Map.empty
     = (Inl (SystemExit 1), Map.empty)
   \<and> fst (prepare_public_csv [COL_PRENOM, COL_NOM, COL_CONSENT] [[COL_PRENOM \<mapsto> ''Ada'']]
        ''out.csv'' Map.empty) = Inr ()"
proof -
  have ne: "COL_CONSENT \<noteq> COL_PRENOM" "COL_CONSENT \<noteq> COL_NOM"
    by (simp_all add: COL_CONSENT_def COL_PRENOM_def COL_NOM_def)
  show ?thesis
    using missing_required_column_aborts
            [of "[COL_PRENOM, COL_NOM]" "[[COL_PRENOM \<mapsto> ''Ada'']]" "''out.csv''" Map.empty]
          missing_required_column_aborts
            [of "[COL_PRENOM, COL_NOM, COL_CONSENT]" "[[COL_PRENOM \<mapsto> ''Ada'']]" "''out.csv''" Map.empty]
          ne
    by simp
qed

text \<open>
  C7. A row whose first name and last name are both empty after trimming is skipped
  before its consent value is looked at: the run on the rows with this row among them
  gives the same result (exit status and written file) as the run without it, whatever
  its consent and membership type are; the public segment, the pending segment and the
  four counters are the same as without it, and no row of the written table (header,
  public, pending or statistics row) is the serialization of this row.
\<close>

theorem empty_name_row_discarded:
  assumes "no_name r"
  shows "prepare_public_csv headers (xs @ r # ys) output_path fs =
           prepare_public_csv headers (xs @ ys) output_path fs
         \<and> public_segment (xs @ r # ys) = public_segment (xs @ ys)
         \<and> pending_segment (xs @ r # ys) = pending_segment (xs @ ys)
         \<and> excluded_stats (categorize (xs @ r # ys)) = excluded_stats (categorize (xs @ ys))
         \<and> (COL_PRENOM \<in> set headers \<and> COL_NOM \<in> set headers \<and> COL_CONSENT \<in> set headers
              \<longrightarrow> (\<exists>t. snd (prepare_public_csv headers (xs @ r # ys) output_path fs) output_path
                          = Some t
                        \<and> dict_to_list headers r \<notin> set t))"
proof -
  from assms have d: "\<not> is_public r" "\<not> is_excluded r" "\<not> is_pending r"
    using no_name_dispositions by blast+
  have e: "excluded_stats (categorize (xs @ r # ys)) = excluded_stats (categorize (xs @ ys))"
    using d(2) by (rule excluded_stats_skip)
  have p: "prepare_public_csv headers (xs @ r # ys) output_path fs =
           prepare_public_csv headers (xs @ ys) output_path fs"
    unfolding prepare_public_csv_alt e using d by simp
  have w: "\<exists>t. snd (prepare_public_csv headers (xs @ r # ys) output_path fs) output_path = Some t
             \<and> dict_to_list headers r \<notin> set t"
    if c: "COL_PRENOM \<in> set headers \<and> COL_NOM \<in> set headers \<and> COL_CONSENT \<in> set headers"
  proof (intro exI conjI)
    show "snd (prepare_public_csv headers (xs @ r # ys) output_path fs) output_path =
          Some (headers # map (dict_to_list headers) (filter is_public (xs @ r # ys))
            @ map (dict_to_list headers) (map masked_of (filter is_pending (xs @ r # ys)))
            @ [dict_to_list headers
                 (stats_row_dict headers (excluded_stats (categorize (xs @ r # ys))))])"
      using c by (simp only: prepare_public_csv_closed snd_conv fun_upd_same)
    show "dict_to_list headers r \<notin>
          set (headers # map (dict_to_list headers) (filter is_public (xs @ r # ys))
            @ map (dict_to_list headers) (map masked_of (filter is_pending (xs @ r # ys)))
            @ [dict_to_list headers
                 (stats_row_dict headers (excluded_stats (categorize (xs @ r # ys))))])"
      using c assms by (intro unnamed_row_not_written) simp_all
  qed
  show ?thesis
    using p e d w by (simp add: public_segment_closed pending_segment_closed)
qed

theorem empty_name_row_discarded_witness:
  "no_name [COL_CONSENT \<mapsto> ''Oui'', COL_TYPE \<mapsto> ''Partenaire'']
   \<and> prepare_public_csv [COL_PRENOM, COL_NOM, COL_CONSENT]
       ([[COL_PRENOM \<mapsto> ''Ada'', COL_CONSENT \<mapsto> ''Oui'']]
          @ [COL_CONSENT \<mapsto> ''Oui'', COL_TYPE \<mapsto> ''Partenaire''] # [])
       ''out.csv'' Map.empty
     = prepare_public_csv [COL_PRENOM, COL_NOM, COL_CONSENT]
       ([[COL_PRENOM \<mapsto> ''Ada'', COL_CONSENT \<mapsto> ''Oui'']] @ [])
       ''out.csv'' Map.empty
   \<and> (\<exists>t. snd (prepare_public_csv [COL_PRENOM, COL_NOM, COL_CONSENT]
              ([[COL_PRENOM \<mapsto> ''Ada'', COL_CONSENT \<mapsto> ''Oui'']]
                 @ [COL_CONSENT \<mapsto> ''Oui'', COL_TYPE \<mapsto> ''Partenaire''] # [])
              ''out.csv'' Map.empty) ''out.csv'' = Some t
          \<and> dict_to_list [COL_PRENOM, COL_NOM, COL_CONSENT]
               [COL_CONSENT \<mapsto> ''Oui'', COL_TYPE \<mapsto> ''Partenaire''] \<notin> set t)"
proof -
  have h: "no_name [COL_CONSENT \<mapsto> ''Oui'', COL_TYPE \<mapsto> ''Partenaire'']"
    by code_simp
  have c: "COL_PRENOM \<in> set [COL_PRENOM, COL_NOM, COL_CONSENT]
           \<and> COL_NOM \<in> set [COL_PRENOM, COL_NOM, COL_CONSENT]
           \<and> COL_CONSENT \<in> set [COL_PRENOM, COL_NOM, COL_CONSENT]"
    by simp
  from h c empty_name_row_discarded [OF h, of "[COL_PRENOM, COL_NOM, COL_CONSENT]"
        "[[COL_PRENOM \<mapsto> ''Ada'', COL_CONSENT \<mapsto> ''Oui'']]" "[]" "''out.csv''" Map.empty]
  show ?thesis by blast
qed

text \<open>
  C2. A row that is not discarded (it has a first or a last name) gets exactly one of the
  three dispositions, decided on its trimmed, lower-cased consent value: if the value
  begins with "oui" the row joins the public segment, in place and as it is, and nothing
  else changes; otherwise, if it begins with "non", it joins neither segment and the
  total counter goes up by one; otherwise it joins the pending segment, in place and
  masked, and nothing else changes. An empty or missing consent value is of the third
  kind. The pass is a total function: no consent value makes it fail.
\<close>

theorem classifier_first_match_wins:
  assumes "\<not> no_name r"
  shows "(startswith (consent r) ''oui'' \<longrightarrow>
            public_segment (xs @ r # ys) = public_segment xs @ r # public_segment ys
          \<and> pending_segment (xs @ r # ys) = pending_segment (xs @ ys)
          \<and> excluded_stats (categorize (xs @ r # ys)) = excluded_stats (categorize (xs @ ys)))
       \<and> (\<not> startswith (consent r) ''oui'' \<and> startswith (consent r) ''non'' \<longrightarrow>
            public_segment (xs @ r # ys) = public_segment (xs @ ys)
          \<and> pending_segment (xs @ r # ys) = pending_segment (xs @ ys)
          \<and> st_total (excluded_stats (categorize (xs @ r # ys))) =
              st_total (excluded_stats (categorize (xs @ ys))) + 1)
       \<and> (\<not> startswith (consent r) ''oui'' \<and> \<not> startswith (consent r) ''non'' \<longrightarrow>
            public_segment (xs @ r # ys) = public_segment (xs @ ys)
          \<and> pending_segment (xs @ r # ys) =
              pending_segment xs @ masked_of r # pending_segment ys
          \<and> excluded_stats (categorize (xs @ r # ys)) = excluded_stats (categorize (xs @ ys)))
       \<and> (r COL_CONSENT = None \<or> strip (dict_get r COL_CONSENT []) = [] \<longrightarrow>
            \<not> startswith (consent r) ''oui'' \<and> \<not> startswith (consent r) ''non'')"
proof (intro conjI impI)
  assume oui: "startswith (consent r) ''oui''"
  then have d: "is_public r" "\<not> is_excluded r" "\<not> is_pending r"
    using assms by (simp_all add: is_public_def is_excluded_def is_pending_def)
  show "public_segment (xs @ r # ys) = public_segment xs @ r # public_segment ys"
    using d by (simp add: public_segment_closed)
  show "pending_segment (xs @ r # ys) = pending_segment (xs @ ys)"
    using d by (simp add: pending_segment_closed)
  show "excluded_stats (categorize (xs @ r # ys)) = excluded_stats (categorize (xs @ ys))"
    using d(2) by (rule excluded_stats_skip)
next
  assume non: "\<not> startswith (consent r) ''oui'' \<and> startswith (consent r) ''non''"
  then have d: "\<not> is_public r" "is_excluded r" "\<not> is_pending r"
    using assms by (simp_all add: is_public_def is_excluded_def is_pending_def)
  show "public_segment (xs @ r # ys) = public_segment (xs @ ys)"
    using d by (simp add: public_segment_closed)
  show "pending_segment (xs @ r # ys) = pending_segment (xs @ ys)"
    using d by (simp add: pending_segment_closed)
  show "st_total (excluded_stats (categorize (xs @ r # ys))) =
        st_total (excluded_stats (categorize (xs @ ys))) + 1"
    using d(2) by (simp add: excluded_stats_insert count_excluded_total)
next
  assume oth: "\<not> startswith (consent r) ''oui'' \<and> \<not> startswith (consent r) ''non''"
  then have d: "\<not> is_public r" "\<not> is_excluded r" "is_pending r"
    using assms by (simp_all add: is_public_def is_excluded_def is_pending_def)
  show "public_segment (xs @ r # ys) = public_segment (xs @ ys)"
    using d by (simp add: public_segment_closed)
  show "pending_segment (xs @ r # ys) = pending_segment xs @ masked_of r # pending_segment ys"
    using d by (simp add: pending_segment_closed)
  show "excluded_stats (categorize (xs @ r # ys)) = excluded_stats (categorize (xs @ ys))"
    using d(2) by (rule excluded_stats_skip)
next
  assume "r COL_CONSENT = None \<or> strip (dict_get r COL_CONSENT []) = []"
  then have "consent r = []" by (rule consent_missing)
  then show "\<not> startswith (consent r) ''oui''" "\<not> startswith (consent r) ''non''"
    by (simp_all add: startswith_def)
qed

theorem classifier_first_match_wins_witness:
  "\<not> no_name [COL_PRENOM \<mapsto> ''Ada'', COL_CONSENT \<mapsto> '' OUI, merci'']
   \<and> startswith (consent [COL_PRENOM \<mapsto> ''Ada'', COL_CONSENT \<mapsto> '' OUI, merci'']) ''oui''
   \<and> public_segment ([] @ [COL_PRENOM \<mapsto> ''Ada'', COL_CONSENT \<mapsto> '' OUI, merci''] # [])
       = public_segment [] @ [COL_PRENOM \<mapsto> ''Ada'', COL_CONSENT \<mapsto> '' OUI, merci'']
           # public_segment []
   \<and> \<not> no_name [COL_NOM \<mapsto> ''Byron'', COL_CONSENT \<mapsto> ''Non'']
   \<and> startswith (consent [COL_NOM \<mapsto> ''Byron'', COL_CONSENT \<mapsto> ''Non'']) ''non''
   \<and> st_total (excluded_stats (categorize ([] @ [COL_NOM \<mapsto> ''Byron'', COL_CONSENT \<mapsto> ''Non''] # [])))
       = st_total (excluded_stats (categorize ([] @ []))) + 1
   \<and> \<not> no_name [COL_PRENOM \<mapsto> ''Cy'']
   \<and> [COL_PRENOM \<mapsto> ''Cy''] COL_CONSENT = None
   \<and> pending_segment ([] @ [COL_PRENOM \<mapsto> ''Cy''] # [])
       = pending_segment [] @ masked_of [COL_PRENOM \<mapsto> ''Cy''] # pending_segment []"
proof -
  have n1: "\<not> no_name [COL_PRENOM \<mapsto> ''Ada'', COL_CONSENT \<mapsto> '' OUI, merci'']"
    by code_simp
  have c1: "startswith (consent [COL_PRENOM \<mapsto> ''Ada'', COL_CONSENT \<mapsto> '' OUI, merci'']) ''oui''"
    by code_simp
  have n2: "\<not> no_name [COL_NOM \<mapsto> ''Byron'', COL_CONSENT \<mapsto> ''Non'']"
    by code_simp
  have c2: "\<not> startswith (consent [COL_NOM \<mapsto> ''Byron'', COL_CONSENT \<mapsto> ''Non'']) ''oui''
            \<and> startswith (consent [COL_NOM \<mapsto> ''Byron'', COL_CONSENT \<mapsto> ''Non'']) ''non''"
    by code_simp
  have n3: "\<not> no_name [COL_PRENOM \<mapsto> ''Cy'']"
    by code_simp
  have c3: "[COL_PRENOM \<mapsto> ''Cy''] COL_CONSENT = None"
    using columns_distinct by simp
  from n1 c1 n2 c2 n3 c3
    classifier_first_match_wins [OF n1, of "[]" "[]"]
    classifier_first_match_wins [OF n2, of "[]" "[]"]
    classifier_first_match_wins [OF n3, of "[]" "[]"]
  show ?thesis by blast
qed

text \<open>
  C1. A row with a first or a last name whose trimmed, lower-cased consent value begins
  with "non" is in neither segment, and its serialization is no row of the written
  table. Compared with the run without the row, the total counter is higher by exactly
  one, and at most one of the three other counters is higher, by exactly one. The counter
  is chosen on the membership-type cell after it is trimmed and lower-cased (a missing
  cell counts as empty): the regular counter if that value contains the regular keyword
  (with or without accent); otherwise the student counter if it contains the student
  keyword; otherwise the partner counter if it contains the partner keyword; otherwise
  none of the three.
\<close>

theorem refusing_member_excluded_and_counted:
  fixes r :: pydict and xs ys :: "pydict list"
  defines "e \<equiv> excluded_stats (categorize (xs @ ys))"
    and "e' \<equiv> excluded_stats (categorize (xs @ r # ys))"
    and "t \<equiv> lower (strip (dict_get r COL_TYPE []))"
  assumes "\<not> no_name r"
    and "startswith (lower (strip (dict_get r COL_CONSENT []))) ''non''"
  shows "public_segment (xs @ r # ys) = public_segment (xs @ ys)
       \<and> pending_segment (xs @ r # ys) = pending_segment (xs @ ys)
       \<and> (COL_PRENOM \<in> set headers \<and> COL_NOM \<in> set headers \<and> COL_CONSENT \<in> set headers
            \<longrightarrow> (\<exists>tab. snd (prepare_public_csv headers (xs @ r # ys) output_path fs) output_path
                         = Some tab
                       \<and> dict_to_list headers r \<notin> set tab))
       \<and> st_total e' = st_total e + 1
       \<and> (if str_in (''r'' @ [CHR 0xE9] @ ''gulier'') t \<or> str_in ''regulier'' t
          then st_regulier e' = st_regulier e + 1 \<and> st_etudiant e' = st_etudiant e
               \<and> st_partenaire e' = st_partenaire e
          else if str_in ([CHR 0xE9] @ ''tudiant'') t \<or> str_in ''etudiant'' t
          then st_regulier e' = st_regulier e \<and> st_etudiant e' = st_etudiant e + 1
               \<and> st_partenaire e' = st_partenaire e
          else if str_in ''partenaire'' t
          then st_regulier e' = st_regulier e \<and> st_etudiant e' = st_etudiant e
               \<and> st_partenaire e' = st_partenaire e + 1
          else st_regulier e' = st_regulier e \<and> st_etudiant e' = st_etudiant e
               \<and> st_partenaire e' = st_partenaire e)"
proof -
  have x: "is_excluded r"
    using assms(4,5) by (simp add: is_excluded_iff consent_def)
  then have d: "\<not> is_public r" "\<not> is_pending r"
    using dispositions_exclusive by blast+
  have e': "e' = count_excluded t e"
    unfolding e_def e'_def t_def type_adh_def [symmetric] using x by (rule excluded_stats_insert)
  have w: "\<exists>tab. snd (prepare_public_csv headers (xs @ r # ys) output_path fs) output_path = Some tab
             \<and> dict_to_list headers r \<notin> set tab"
    if c: "COL_PRENOM \<in> set headers \<and> COL_NOM \<in> set headers \<and> COL_CONSENT \<in> set headers"
  proof (intro exI conjI)
    show "snd (prepare_public_csv headers (xs @ r # ys) output_path fs) output_path =
          Some (headers # map (dict_to_list headers) (filter is_public (xs @ r # ys))
            @ map (dict_to_list headers) (map masked_of (filter is_pending (xs @ r # ys)))
            @ [dict_to_list headers
                 (stats_row_dict headers (excluded_stats (categorize (xs @ r # ys))))])"
      using c by (simp only: prepare_public_csv_closed snd_conv fun_upd_same)
    show "dict_to_list headers r \<notin>
          set (headers # map (dict_to_list headers) (filter is_public (xs @ r # ys))
            @ map (dict_to_list headers) (map masked_of (filter is_pending (xs @ r # ys)))
            @ [dict_to_list headers
                 (stats_row_dict headers (excluded_stats (categorize (xs @ r # ys))))])"
      using c x by (intro excluded_row_not_written) simp_all
  qed
  have p: "public_segment (xs @ r # ys) = public_segment (xs @ ys)"
    using d by (simp add: public_segment_closed)
  have q: "pending_segment (xs @ r # ys) = pending_segment (xs @ ys)"
    using d by (simp add: pending_segment_closed)
  have k: "st_total e' = st_total e + 1
       \<and> (if str_in (''r'' @ [CHR 0xE9] @ ''gulier'') t \<or> str_in ''regulier'' t
          then st_regulier e' = st_regulier e + 1 \<and> st_etudiant e' = st_etudiant e
               \<and> st_partenaire e' = st_partenaire e
          else if str_in ([CHR 0xE9] @ ''tudiant'') t \<or> str_in ''etudiant'' t
          then st_regulier e' = st_regulier e \<and> st_etudiant e' = st_etudiant e + 1
               \<and> st_partenaire e' = st_partenaire e
          else if str_in ''partenaire'' t
          then st_regulier e' = st_regulier e \<and> st_etudiant e' = st_etudiant e
               \<and> st_partenaire e' = st_partenaire e + 1
          else st_regulier e' = st_regulier e \<and> st_etudiant e' = st_etudiant e
               \<and> st_partenaire e' = st_partenaire e)"
    unfolding e' by (simp add: count_excluded_def Let_def)
  from p q w k show ?thesis by blast
qed

theorem refusing_member_excluded_and_counted_witness:
  "\<not> no_name [COL_PRENOM \<mapsto> ''Ada'', COL_CONSENT \<mapsto> '' Non '',
               COL_TYPE \<mapsto> '' '' @ [CHR 0xC9] @ ''TUDIANT R'' @ [CHR 0xC9] @ ''GULIER '']
   \<and> startswith
        (lower (strip (dict_get
           [COL_PRENOM \<mapsto> ''Ada'', COL_CONSENT \<mapsto> '' Non '',
            COL_TYPE \<mapsto> '' '' @ [CHR 0xC9] @ ''TUDIANT R'' @ [CHR 0xC9] @ ''GULIER '']
           COL_CONSENT []))) ''non''
   \<and> st_total (excluded_stats (categorize ([] @
         [COL_PRENOM \<mapsto> ''Ada'', COL_CONSENT \<mapsto> '' Non '',
          COL_TYPE \<mapsto> '' '' @ [CHR 0xC9] @ ''TUDIANT R'' @ [CHR 0xC9] @ ''GULIER ''] # [])))
       = st_total (excluded_stats (categorize ([] @ []))) + 1
   \<and> st_regulier (excluded_stats (categorize ([] @
         [COL_PRENOM \<mapsto> ''Ada'', COL_CONSENT \<mapsto> '' Non '',
          COL_TYPE \<mapsto> '' '' @ [CHR 0xC9] @ ''TUDIANT R'' @ [CHR 0xC9] @ ''GULIER ''] # [])))
       = st_regulier (excluded_stats (categorize ([] @ []))) + 1
   \<and> st_etudiant (excluded_stats (categorize ([] @
         [COL_PRENOM \<mapsto> ''Ada'', COL_CONSENT \<mapsto> '' Non '',
          COL_TYPE \<mapsto> '' '' @ [CHR 0xC9] @ ''TUDIANT R'' @ [CHR 0xC9] @ ''GULIER ''] # [])))
       = st_etudiant (excluded_stats (categorize ([] @ [])))
   \<and> (\<exists>tab. snd (prepare_public_csv [COL_PRENOM, COL_NOM, COL_CONSENT] ([] @
         [COL_PRENOM \<mapsto> ''Ada'', COL_CONSENT \<mapsto> '' Non '',
          COL_TYPE \<mapsto> '' '' @ [CHR 0xC9] @ ''TUDIANT R'' @ [CHR 0xC9] @ ''GULIER ''] # [])
         ''out.csv'' Map.empty) ''out.csv'' = Some tab
        \<and> dict_to_list [COL_PRENOM, COL_NOM, COL_CONSENT]
             [COL_PRENOM \<mapsto> ''Ada'', COL_CONSENT \<mapsto> '' Non '',
              COL_TYPE \<mapsto> '' '' @ [CHR 0xC9] @ ''TUDIANT R'' @ [CHR 0xC9] @ ''GULIER '']
            \<notin> set tab)"
proof -
  let ?r = "[COL_PRENOM \<mapsto> ''Ada'', COL_CONSENT \<mapsto> '' Non '',
             COL_TYPE \<mapsto> '' '' @ [CHR 0xC9] @ ''TUDIANT R'' @ [CHR 0xC9] @ ''GULIER '']"
  have n: "\<not> no_name ?r"
    by code_simp
  have c: "startswith (lower (strip (dict_get ?r COL_CONSENT []))) ''non''"
    by code_simp
  have a: "str_in (''r'' @ [CHR 0xE9] @ ''gulier'') (lower (strip (dict_get ?r COL_TYPE [])))
           \<or> str_in ''regulier'' (lower (strip (dict_get ?r COL_TYPE [])))"
    by code_simp
  have h: "COL_PRENOM \<in> set [COL_PRENOM, COL_NOM, COL_CONSENT]
           \<and> COL_NOM \<in> set [COL_PRENOM, COL_NOM, COL_CONSENT]
           \<and> COL_CONSENT \<in> set [COL_PRENOM, COL_NOM, COL_CONSENT]"
    by simp
  from refusing_member_excluded_and_counted
         [OF n c, of "[]" "[]" "[COL_PRENOM, COL_NOM, COL_CONSENT]" "''out.csv''" Map.empty]
  show ?thesis
    unfolding if_P [OF a] using n c h by blast
qed

text \<open>
  C5. When the three required columns are present, the run writes to the output path
  the header row, then the public rows, then the masked pending rows, then the
  statistics row, and touches no other path. The public rows are the input rows with a
  name and a consent value beginning with "oui", as they are and in input order; the
  pending rows are the masked copies of the input rows with a name and a consent value
  beginning with neither "oui" nor "non", in input order. Each record is written as one
  cell per header, in header order: the record's value for that header, or the empty
  string if it has none; a key of the record that is not a header does not change the
  row that is written.
\<close>

theorem export_order_and_serialization:
  assumes "COL_PRENOM \<in> set headers" "COL_NOM \<in> set headers" "COL_CONSENT \<in> set headers"
  shows "prepare_public_csv headers rows output_path fs =
           (Inr (),
            fs(output_path \<mapsto>
              headers # map (dict_to_list headers) (public_segment rows)
                @ map (dict_to_list headers) (pending_segment rows)
                @ [dict_to_list headers
                     (stats_row_dict headers (excluded_stats (categorize rows)))]))
       \<and> public_segment rows =
           filter (\<lambda>r. \<not> no_name r \<and> startswith (consent r) ''oui'') rows
       \<and> pending_segment rows =
           map masked_of
             (filter (\<lambda>r. \<not> no_name r \<and> \<not> startswith (consent r) ''oui''
                          \<and> \<not> startswith (consent r) ''non'') rows)
       \<and> length (dict_to_list headers d) = length headers
       \<and> (\<forall>j < length headers.
             dict_to_list headers d ! j = (case d (headers ! j) of None \<Rightarrow> [] | Some v \<Rightarrow> v))
       \<and> (k \<notin> set headers \<longrightarrow> dict_to_list headers (d(k \<mapsto> v)) = dict_to_list headers d)"
proof -
  have 1: "prepare_public_csv headers rows output_path fs =
           (Inr (),
            fs(output_path \<mapsto>
              headers # map (dict_to_list headers) (public_segment rows)
                @ map (dict_to_list headers) (pending_segment rows)
                @ [dict_to_list headers
                     (stats_row_dict headers (excluded_stats (categorize rows)))]))"
    using assms
    by (simp only: prepare_public_csv_closed public_segment_closed pending_segment_closed)
  have 2: "public_segment rows =
           filter (\<lambda>r. \<not> no_name r \<and> startswith (consent r) ''oui'') rows"
    by (simp add: public_segment_closed is_public_def [abs_def])
  have 3: "pending_segment rows =
           map masked_of
             (filter (\<lambda>r. \<not> no_name r \<and> \<not> startswith (consent r) ''oui''
                          \<and> \<not> startswith (consent r) ''non'') rows)"
    by (simp add: pending_segment_closed is_pending_def [abs_def])
  have 4: "length (dict_to_list headers d) = length headers"
    by (simp add: dict_to_list_def)
  from 1 2 3 4 dict_to_list_nth [of _ headers d] dict_to_list_extra_key [of k headers d v]
  show ?thesis by blast
qed

theorem export_order_and_serialization_witness:
  "COL_PRENOM \<in> set [COL_PRENOM, COL_NOM, COL_EMAIL, COL_CONSENT]
   \<and> COL_NOM \<in> set [COL_PRENOM, COL_NOM, COL_EMAIL, COL_CONSENT]
   \<and> COL_CONSENT \<in> set [COL_PRENOM, COL_NOM, COL_EMAIL, COL_CONSENT]
   \<and> prepare_public_csv [COL_PRENOM, COL_NOM, COL_EMAIL, COL_CONSENT]
        [[COL_PRENOM \<mapsto> ''Cy''],
         [COL_PRENOM \<mapsto> ''Ada'', COL_EMAIL \<mapsto> ''a@x.com'', COL_CONSENT \<mapsto> ''Oui'',
          ''Extra'' \<mapsto> ''x'']]
        ''out.csv'' Map.empty
      = (Inr (),
         [''out.csv'' \<mapsto>
            [[COL_PRENOM, COL_NOM, COL_EMAIL, COL_CONSENT],
             [''Ada'', [], ''a@x.com'', ''Oui''],
             [''Cy'', [], [], []],
             [STATS_ROW_MARKER, [], ''0,0,0,0'', ''stats'']]])"
proof -
  let ?H = "[COL_PRENOM, COL_NOM, COL_EMAIL, COL_CONSENT]"
  let ?r1 = "[COL_PRENOM \<mapsto> ''Cy'']"
  let ?r2 = "[COL_PRENOM \<mapsto> ''Ada'', COL_EMAIL \<mapsto> ''a@x.com'', COL_CONSENT \<mapsto> ''Oui'',
              ''Extra'' \<mapsto> ''x'']"
  have h: "COL_PRENOM \<in> set ?H" "COL_NOM \<in> set ?H" "COL_CONSENT \<in> set ?H"
    by simp_all
  note t = export_order_and_serialization [OF h, of "[?r1, ?r2]" "''out.csv''" Map.empty]
  have p1: "\<not> (\<not> no_name ?r1 \<and> startswith (consent ?r1) ''oui'')"
    by code_simp
  have p2: "\<not> no_name ?r2 \<and> startswith (consent ?r2) ''oui''"
    by code_simp
  have q1: "\<not> no_name ?r1 \<and> \<not> startswith (consent ?r1) ''oui''
            \<and> \<not> startswith (consent ?r1) ''non''"
    by code_simp
  have q2: "\<not> (\<not> no_name ?r2 \<and> \<not> startswith (consent ?r2) ''oui''
            \<and> \<not> startswith (consent ?r2) ''non'')"
    by code_simp
  have x: "\<not> is_excluded ?r1" "\<not> is_excluded ?r2"
    by code_simp+
  have pub: "public_segment [?r1, ?r2] = [?r2]"
    using t p1 p2 by simp
  have pen: "pending_segment [?r1, ?r2] = [masked_of ?r1]"
    using t q1 q2 by simp
  have e: "excluded_stats (categorize [?r1, ?r2]) =
           \<lparr>st_total = 0, st_regulier = 0, st_etudiant = 0, st_partenaire = 0\<rparr>"
    using x by (simp add: excluded_stats_closed)
  have c1: "dict_to_list ?H ?r2 = [''Ada'', [], ''a@x.com'', ''Oui'']"
    by code_simp
  have c2: "dict_to_list ?H (masked_of ?r1) = [''Cy'', [], [], []]"
    by code_simp
  have c3: "dict_to_list ?H
              (stats_row_dict ?H \<lparr>st_total = 0, st_regulier = 0, st_etudiant = 0, st_partenaire = 0\<rparr>)
            = [STATS_ROW_MARKER, [], ''0,0,0,0'', ''stats'']"
    by code_simp
  from t have "prepare_public_csv ?H [?r1, ?r2] ''out.csv'' Map.empty =
           (Inr (),
            [''out.csv'' \<mapsto>
              ?H # map (dict_to_list ?H) (public_segment [?r1, ?r2])
                @ map (dict_to_list ?H) (pending_segment [?r1, ?r2])
                @ [dict_to_list ?H
                     (stats_row_dict ?H (excluded_stats (categorize [?r1, ?r2])))]])"
    by blast
  then show ?thesis
    unfolding pub pen e using h c1 c2 c3 by simp
qed

text \<open>
  C6, as the code has it. When the three required columns are present, exactly one
  statistics record is created, after the pass over all the rows, and the list of records
  that is written ends with its reference and holds it nowhere else. The record is a new
  object: it is none of the input rows that the loop visits and none of the masked
  copies, so it is neither classified nor masked. It maps the first-name column to the
  marker, the primary e-mail column to the four final counters joined by commas (total,
  regulier, etudiant, partenaire), the consent column to "stats" and every other header
  to the empty string. The counters are not negative and are written in decimal
  notation. The last row of the written table is the serialization of the record. The
  input rows are not checked for the marker, so nothing is said about how many written
  rows carry the marker and the tag.
\<close>

theorem statistics_record_once_and_last:
  fixes headers :: "string list" and rows :: "pydict list"
  defines "s \<equiv> categorize rows"
    and "h \<equiv> fst (assemble headers rows)"
    and "all_public \<equiv> snd (assemble headers rows)"
  defines "stats_row \<equiv> length (heap s)"
    and "packed \<equiv> str_int (st_total (excluded_stats s)) @ '',''
                   @ str_int (st_regulier (excluded_stats s)) @ '',''
                   @ str_int (st_etudiant (excluded_stats s)) @ '',''
                   @ str_int (st_partenaire (excluded_stats s))"
  assumes "COL_PRENOM \<in> set headers" "COL_NOM \<in> set headers" "COL_CONSENT \<in> set headers"
  shows "all_public = public_rows s @ pending_rows s @ [stats_row]
       \<and> stats_row \<notin> set (public_rows s @ pending_rows s)
       \<and> stats_row \<notin> set [0 ..< length rows]
       \<and> take stats_row h = heap s \<and> length h = Suc stats_row
       \<and> h ! stats_row = stats_row_dict headers (excluded_stats s)
       \<and> (\<forall>k. (h ! stats_row) k =
             (if k = COL_PRENOM then Some STATS_ROW_MARKER
              else if k = COL_EMAIL then Some packed
              else if k = COL_CONSENT then Some ''stats''
              else if k \<in> set headers then Some [] else None))
       \<and> (\<exists>tab. snd (prepare_public_csv headers rows output_path fs) output_path = Some tab
             \<and> length tab = Suc (length all_public)
             \<and> last tab = dict_to_list headers (h ! stats_row)
             \<and> (\<forall>j < length headers.
                   last tab ! j =
                     (if headers ! j = COL_PRENOM then STATS_ROW_MARKER
                      else if headers ! j = COL_EMAIL then packed
                      else if headers ! j = COL_CONSENT then ''stats''
                      else [])))
       \<and> 0 \<le> st_total (excluded_stats s) \<and> 0 \<le> st_regulier (excluded_stats s)
       \<and> 0 \<le> st_etudiant (excluded_stats s) \<and> 0 \<le> st_partenaire (excluded_stats s)
       \<and> (\<forall>n :: nat.
             str_int (int n) =
               (if n < 10 then [char_of (48 + n)]
                else str_int (int (n div 10)) @ [char_of (48 + n mod 10)]))"
proof -
  let ?ms = "map masked_of (filter is_pending rows)"
  let ?d = "stats_row_dict headers (excluded_stats s)"
  have hs: "heap s = rows @ ?ms"
    and pu: "public_rows s = filter (\<lambda>a. is_public (rows ! a)) [0 ..< length rows]"
    and pe: "pending_rows s = [length rows ..< length rows + length (filter is_pending rows)]"
    unfolding s_def by (simp_all add: categorize_closed)
  have sr: "stats_row = length rows + length (filter is_pending rows)"
    unfolding stats_row_def hs by simp
  have h: "h = heap s @ [?d]"
    unfolding h_def s_def by (simp add: assemble_def new_dict_def split_beta Let_def)
  have ap: "all_public = public_rows s @ pending_rows s @ [stats_row]"
    unfolding all_public_def stats_row_def s_def
    by (simp add: assemble_def new_dict_def split_beta Let_def)
  have 2: "stats_row \<notin> set (public_rows s @ pending_rows s)"
    unfolding pu pe sr by simp
  have 3: "stats_row \<notin> set [0 ..< length rows]"
    unfolding sr by simp
  have 4: "take stats_row h = heap s \<and> length h = Suc stats_row"
    unfolding h stats_row_def by simp
  have at: "h ! stats_row = ?d"
    unfolding h stats_row_def by simp
  have 5: "(h ! stats_row) k =
             (if k = COL_PRENOM then Some STATS_ROW_MARKER
              else if k = COL_EMAIL then Some packed
              else if k = COL_CONSENT then Some ''stats''
              else if k \<in> set headers then Some [] else None)" for k
    unfolding at packed_def using assms(7) by (rule stats_row_dict_fields)
  let ?tab = "headers # map (\<lambda>a. dict_to_list headers (h ! a)) all_public"
  have w: "snd (prepare_public_csv headers rows output_path fs) output_path = Some ?tab"
    unfolding h_def all_public_def using assms(6-8) by (rule prepare_public_csv_written)
  have l: "length ?tab = Suc (length all_public)"
    by simp
  have la: "last ?tab = dict_to_list headers (h ! stats_row)"
    unfolding ap by simp
  have ce: "last ?tab ! j =
                     (if headers ! j = COL_PRENOM then STATS_ROW_MARKER
                      else if headers ! j = COL_EMAIL then packed
                      else if headers ! j = COL_CONSENT then ''stats''
                      else [])" if "j < length headers" for j
    unfolding la using that by (simp add: dict_to_list_nth 5)
  have nn: "0 \<le> st_total (excluded_stats s) \<and> 0 \<le> st_regulier (excluded_stats s)
       \<and> 0 \<le> st_etudiant (excluded_stats s) \<and> 0 \<le> st_partenaire (excluded_stats s)"
    unfolding s_def by (rule excluded_stats_nonneg)
  from ap 2 3 4 at 5 w l la ce nn str_int_decimal show ?thesis by blast
qed

theorem statistics_record_once_and_last_witness:
  "COL_PRENOM \<in> set [COL_PRENOM, COL_NOM, COL_EMAIL, COL_CONSENT]
   \<and> COL_NOM \<in> set [COL_PRENOM, COL_NOM, COL_EMAIL, COL_CONSENT]
   \<and> COL_CONSENT \<in> set [COL_PRENOM, COL_NOM, COL_EMAIL, COL_CONSENT]
   \<and> (\<exists>tab. snd (prepare_public_csv [COL_PRENOM, COL_NOM, COL_EMAIL, COL_CONSENT]
          (replicate 10 [COL_PRENOM \<mapsto> ''Ada'', COL_CONSENT \<mapsto> ''Non'',
                         COL_TYPE \<mapsto> CHR 0xC9 # ''tudiant'']
           @ replicate 2 [COL_PRENOM \<mapsto> ''Bob'', COL_CONSENT \<mapsto> ''non merci'',
                          COL_TYPE \<mapsto> ''Partenaire''])
          ''out.csv'' Map.empty) ''out.csv'' = Some tab
        \<and> last tab = [STATS_ROW_MARKER, [], ''12,0,10,2'', ''stats''])"
proof -
  let ?H = "[COL_PRENOM, COL_NOM, COL_EMAIL, COL_CONSENT]"
  let ?rs = "[COL_PRENOM \<mapsto> ''Ada'', COL_CONSENT \<mapsto> ''Non'', COL_TYPE \<mapsto> CHR 0xC9 # ''tudiant'']"
  let ?rp = "[COL_PRENOM \<mapsto> ''Bob'', COL_CONSENT \<mapsto> ''non merci'', COL_TYPE \<mapsto> ''Partenaire'']"
  let ?rows = "replicate 10 ?rs @ replicate 2 ?rp"
  let ?z = "\<lparr>st_total = 0, st_regulier = 0, st_etudiant = 0, st_partenaire = 0\<rparr>"
  have hd: "COL_PRENOM \<in> set ?H" "COL_NOM \<in> set ?H" "COL_CONSENT \<in> set ?H"
    by simp_all
  note t = statistics_record_once_and_last [OF hd, of ?rows "''out.csv''" Map.empty]
  have d: "is_excluded ?rs" "is_excluded ?rp"
    by code_simp+
  have cs: "count_excluded (type_adh ?rs) ?z =
            \<lparr>st_total = 1, st_regulier = 0, st_etudiant = 1, st_partenaire = 0\<rparr>"
    by code_simp
  have cp: "count_excluded (type_adh ?rp) ?z =
            \<lparr>st_total = 1, st_regulier = 0, st_etudiant = 0, st_partenaire = 1\<rparr>"
    by code_simp
  have f: "filter is_excluded ?rows = ?rows"
    using d by simp
  have "excluded_stats (categorize ?rows) =
        (count_excluded (type_adh ?rp) ^^ 2) ((count_excluded (type_adh ?rs) ^^ 10) ?z)"
    unfolding excluded_stats_closed f by (simp only: fold_append fold_replicate o_apply)
  also have "\<dots> = \<lparr>st_total = 12, st_regulier = 0, st_etudiant = 10, st_partenaire = 2\<rparr>"
    unfolding count_excluded_funpow cs cp by simp
  finally have e: "excluded_stats (categorize ?rows) =
      \<lparr>st_total = 12, st_regulier = 0, st_etudiant = 10, st_partenaire = 2\<rparr>" .
  have c3: "dict_to_list ?H
              (stats_row_dict ?H \<lparr>st_total = 12, st_regulier = 0, st_etudiant = 10, st_partenaire = 2\<rparr>)
            = [STATS_ROW_MARKER, [], ''12,0,10,2'', ''stats'']"
    by code_simp
  from t obtain tab where
    tab: "snd (prepare_public_csv ?H ?rows ''out.csv'' Map.empty) ''out.csv'' = Some tab"
      "last tab = dict_to_list ?H (fst (assemble ?H ?rows) ! length (heap (categorize ?rows)))"
    by blast
  from t have "fst (assemble ?H ?rows) ! length (heap (categorize ?rows)) =
               stats_row_dict ?H (excluded_stats (categorize ?rows))"
    by blast
  with tab(2) have "last tab = [STATS_ROW_MARKER, [], ''12,0,10,2'', ''stats'']"
    by (simp only: e c3)
  with tab(1) hd show ?thesis by blast
qed

text \<open>
  C6 as it is stated fails in its first part: a member row whose first name is the marker
  and whose consent value is "stats" is a pending row like any other and is written, so
  the table holds two rows with the marker and the tag. Without an e-mail column the two
  rows are equal; with one, the member's row has the placeholder address where the
  statistics row has the counters.
\<close>

theorem statistics_record_counterexample:
  "prepare_public_csv [COL_PRENOM, COL_NOM, COL_CONSENT]
     [[COL_PRENOM \<mapsto> STATS_ROW_MARKER, COL_NOM \<mapsto> [], COL_CONSENT \<mapsto> ''stats'']]
     ''out.csv'' Map.empty
   = (Inr (),
      [''out.csv'' \<mapsto>
         [[COL_PRENOM, COL_NOM, COL_CONSENT],
          [STATS_ROW_MARKER, [], ''stats''],
          [STATS_ROW_MARKER, [], ''stats'']]])
   \<and> prepare_public_csv [COL_PRENOM, COL_NOM, COL_EMAIL, COL_CONSENT]
     [[COL_PRENOM \<mapsto> STATS_ROW_MARKER, COL_NOM \<mapsto> [], COL_EMAIL \<mapsto> [],
       COL_CONSENT \<mapsto> ''stats'']]
     ''out.csv'' Map.empty
   = (Inr (),
      [''out.csv'' \<mapsto>
         [[COL_PRENOM, COL_NOM, COL_EMAIL, COL_CONSENT],
          [STATS_ROW_MARKER, [], ''membre@rsn-placeholder.ca'', ''stats''],
          [STATS_ROW_MARKER, [], ''0,0,0,0'', ''stats'']]])"
proof -
  let ?H3 = "[COL_PRENOM, COL_NOM, COL_CONSENT]"
  let ?H4 = "[COL_PRENOM, COL_NOM, COL_EMAIL, COL_CONSENT]"
  let ?r3 = "[COL_PRENOM \<mapsto> STATS_ROW_MARKER, COL_NOM \<mapsto> [], COL_CONSENT \<mapsto> ''stats'']"
  let ?r4 = "[COL_PRENOM \<mapsto> STATS_ROW_MARKER, COL_NOM \<mapsto> [], COL_EMAIL \<mapsto> [],
              COL_CONSENT \<mapsto> ''stats'']"
  let ?z = "\<lparr>st_total = 0, st_regulier = 0, st_etudiant = 0, st_partenaire = 0\<rparr>"
  have d3: "\<not> is_public ?r3" "\<not> is_excluded ?r3" "is_pending ?r3"
    by code_simp+
  have d4: "\<not> is_public ?r4" "\<not> is_excluded ?r4" "is_pending ?r4"
    by code_simp+
  have e3: "excluded_stats (categorize [?r3]) = ?z"
    using d3 by (simp add: excluded_stats_closed)
  have e4: "excluded_stats (categorize [?r4]) = ?z"
    using d4 by (simp add: excluded_stats_closed)
  have m3: "dict_to_list ?H3 (masked_of ?r3) = [STATS_ROW_MARKER, [], ''stats'']"
    by code_simp
  have m4: "dict_to_list ?H4 (masked_of ?r4) =
            [STATS_ROW_MARKER, [], ''membre@rsn-placeholder.ca'', ''stats'']"
    by code_simp
  have s3: "dict_to_list ?H3 (stats_row_dict ?H3 ?z) = [STATS_ROW_MARKER, [], ''stats'']"
    by code_simp
  have s4: "dict_to_list ?H4 (stats_row_dict ?H4 ?z) =
            [STATS_ROW_MARKER, [], ''0,0,0,0'', ''stats'']"
    by code_simp
  have "prepare_public_csv ?H3 [?r3] ''out.csv'' Map.empty =
     (Inr (),
      [''out.csv'' \<mapsto>
        ?H3 # map (dict_to_list ?H3) (filter is_public [?r3])
          @ map (dict_to_list ?H3) (map masked_of (filter is_pending [?r3]))
          @ [dict_to_list ?H3 (stats_row_dict ?H3 (excluded_stats (categorize [?r3])))]])"
    by (rule prepare_public_csv_closed) simp_all
  then have 1: "prepare_public_csv ?H3 [?r3] ''out.csv'' Map.empty =
     (Inr (), [''out.csv'' \<mapsto>
        [?H3, [STATS_ROW_MARKER, [], ''stats''], [STATS_ROW_MARKER, [], ''stats'']]])"
    unfolding e3 using d3 m3 s3 by simp
  have "prepare_public_csv ?H4 [?r4] ''out.csv'' Map.empty =
     (Inr (),
      [''out.csv'' \<mapsto>
        ?H4 # map (dict_to_list ?H4) (filter is_public [?r4])
          @ map (dict_to_list ?H4) (map masked_of (filter is_pending [?r4]))
          @ [dict_to_list ?H4 (stats_row_dict ?H4 (excluded_stats (categorize [?r4])))]])"
    by (rule prepare_public_csv_closed) simp_all
  then have 2: "prepare_public_csv ?H4 [?r4] ''out.csv'' Map.empty =
     (Inr (), [''out.csv'' \<mapsto>
        [?H4, [STATS_ROW_MARKER, [], ''membre@rsn-placeholder.ca'', ''stats''],
         [STATS_ROW_MARKER, [], ''0,0,0,0'', ''stats'']]])"
    unfolding e4 using d4 m4 s4 by simp
  from 1 2 show ?thesis by blast
qed

text \<open>
  C3. The rows that \<open>read_csv\<close> returns have every header as a key (lines 97 to 101 copy
  each key of the reader's row, and the reader fills a short row up to the header list).
  For such a row that is pending (it has a name, and its consent value begins with
  neither "oui" nor "non"), in the row of the written table that stands for it the cell
  under every sensitive header is the placeholder of that field: the placeholder address
  for the primary e-mail, the two "undisclosed" strings for institution and status, the
  empty string for the other sensitive fields. In the masked record itself, every
  sensitive field that is a key of the row is mapped to its placeholder.
\<close>

theorem pending_sensitive_fields_masked:
  fixes r :: pydict and xs ys :: "pydict list" and headers :: "string list"
  defines "rows \<equiv> xs @ r # ys"
  defines "i \<equiv> length (pending_segment xs)"
  defines "m \<equiv> pending_segment rows ! i"
  defines "row \<equiv> Suc (length (public_segment rows) + i)"
  assumes "\<not> no_name r" "\<not> startswith (consent r) ''oui''" "\<not> startswith (consent r) ''non''"
    and "COL_PRENOM \<in> set headers" "COL_NOM \<in> set headers" "COL_CONSENT \<in> set headers"
    and "set headers \<subseteq> dom r"
  shows "i < length (pending_segment rows)
       \<and> (\<forall>f \<in> set COLS_SENSITIVE.
             m f = (if r f = None then None else Some (dict_get PLACEHOLDER f [])))
       \<and> (\<forall>f. dict_get PLACEHOLDER f [] =
             (if f = COL_EMAIL then ''membre@rsn-placeholder.ca''
              else if f = COL_INSTITUTION then ''Institution non divulgu'' @ [CHR 0xE9] @ ''e''
              else if f = COL_STATUT then ''Non divulgu'' @ [CHR 0xE9]
              else []))
       \<and> (\<exists>tab. snd (prepare_public_csv headers rows output_path fs) output_path = Some tab
             \<and> row < length tab
             \<and> tab ! row = dict_to_list headers m
             \<and> (\<forall>j < length headers. headers ! j \<in> set COLS_SENSITIVE \<longrightarrow>
                   tab ! row ! j = dict_get PLACEHOLDER (headers ! j) []))"
proof -
  have p: "is_pending r"
    using assms(5-7) by (simp add: is_pending_iff)
  have i: "i < length (pending_segment rows)"
    unfolding i_def rows_def using p by (rule pending_segment_nth)
  have m: "m = masked_of r"
    unfolding m_def i_def rows_def using p by (rule pending_segment_nth)
  have 2: "\<forall>f \<in> set COLS_SENSITIVE.
             m f = (if r f = None then None else Some (dict_get PLACEHOLDER f []))"
    unfolding m by (simp add: masked_of_apply)
  from pending_row_written [OF assms(8-10) i, of output_path fs]
  obtain tab where
    tab: "snd (prepare_public_csv headers rows output_path fs) output_path = Some tab"
      "row < length tab" "tab ! row = dict_to_list headers m"
    unfolding row_def m_def by blast
  have "tab ! row ! j = dict_get PLACEHOLDER (headers ! j) []"
    if j: "j < length headers" "headers ! j \<in> set COLS_SENSITIVE" for j
  proof -
    from j(1) assms(11) have "headers ! j \<in> dom r"
      using nth_mem by blast
    then have "r (headers ! j) \<noteq> None"
      by (simp add: dom_def)
    then show ?thesis
      unfolding tab(3) m using j by (simp add: dict_to_list_nth masked_of_apply dict_get_def)
  qed
  with tab i 2 placeholder_get show ?thesis by blast
qed

theorem pending_sensitive_fields_masked_witness:
  "\<not> no_name [COL_PRENOM \<mapsto> ''Cy'', COL_NOM \<mapsto> [], COL_EMAIL \<mapsto> ''c@x.com'',
               ''ORCID'' \<mapsto> ''0000-0002'', COL_TYPE \<mapsto> ''Partenaire'', COL_CONSENT \<mapsto> []]
   \<and> \<not> startswith (consent [COL_PRENOM \<mapsto> ''Cy'', COL_NOM \<mapsto> [], COL_EMAIL \<mapsto> ''c@x.com'',
               ''ORCID'' \<mapsto> ''0000-0002'', COL_TYPE \<mapsto> ''Partenaire'', COL_CONSENT \<mapsto> []])
         ''oui''
   \<and> \<not> startswith (consent [COL_PRENOM \<mapsto> ''Cy'', COL_NOM \<mapsto> [], COL_EMAIL \<mapsto> ''c@x.com'',
               ''ORCID'' \<mapsto> ''0000-0002'', COL_TYPE \<mapsto> ''Partenaire'', COL_CONSENT \<mapsto> []])
         ''non''
   \<and> set [COL_PRENOM, COL_NOM, COL_EMAIL, ''ORCID'', COL_TYPE, COL_CONSENT]
       \<subseteq> dom [COL_PRENOM \<mapsto> ''Cy'', COL_NOM \<mapsto> [], COL_EMAIL \<mapsto> ''c@x.com'',
               ''ORCID'' \<mapsto> ''0000-0002'', COL_TYPE \<mapsto> ''Partenaire'', COL_CONSENT \<mapsto> []]
   \<and> (\<exists>tab. snd (prepare_public_csv
                   [COL_PRENOM, COL_NOM, COL_EMAIL, ''ORCID'', COL_TYPE, COL_CONSENT]
                   ([] @ [COL_PRENOM \<mapsto> ''Cy'', COL_NOM \<mapsto> [], COL_EMAIL \<mapsto> ''c@x.com'',
                          ''ORCID'' \<mapsto> ''0000-0002'', COL_TYPE \<mapsto> ''Partenaire'',
                          COL_CONSENT \<mapsto> []] # [])
                   ''out.csv'' Map.empty) ''out.csv'' = Some tab
         \<and> tab ! Suc (length (public_segment
                    ([] @ [COL_PRENOM \<mapsto> ''Cy'', COL_NOM \<mapsto> [], COL_EMAIL \<mapsto> ''c@x.com'',
                           ''ORCID'' \<mapsto> ''0000-0002'', COL_TYPE \<mapsto> ''Partenaire'',
                           COL_CONSENT \<mapsto> []] # []))
                  + length (pending_segment [])) ! 2 = ''membre@rsn-placeholder.ca''
         \<and> tab ! Suc (length (public_segment
                    ([] @ [COL_PRENOM \<mapsto> ''Cy'', COL_NOM \<mapsto> [], COL_EMAIL \<mapsto> ''c@x.com'',
                           ''ORCID'' \<mapsto> ''0000-0002'', COL_TYPE \<mapsto> ''Partenaire'',
                           COL_CONSENT \<mapsto> []] # []))
                  + length (pending_segment [])) ! 3 = [])"
proof -
  let ?H = "[COL_PRENOM, COL_NOM, COL_EMAIL, ''ORCID'', COL_TYPE, COL_CONSENT]"
  let ?r = "[COL_PRENOM \<mapsto> ''Cy'', COL_NOM \<mapsto> [], COL_EMAIL \<mapsto> ''c@x.com'',
             ''ORCID'' \<mapsto> ''0000-0002'', COL_TYPE \<mapsto> ''Partenaire'', COL_CONSENT \<mapsto> []]"
  have n: "\<not> no_name ?r" and o: "\<not> startswith (consent ?r) ''oui''"
    and x: "\<not> startswith (consent ?r) ''non''"
    by code_simp+
  have h: "COL_PRENOM \<in> set ?H" "COL_NOM \<in> set ?H" "COL_CONSENT \<in> set ?H"
    by simp_all
  have d: "set ?H \<subseteq> dom ?r"
    by simp
  have s: "COL_EMAIL \<in> set COLS_SENSITIVE" "''ORCID'' \<in> set COLS_SENSITIVE"
    by code_simp+
  have g: "dict_get PLACEHOLDER COL_EMAIL [] = ''membre@rsn-placeholder.ca''"
    "dict_get PLACEHOLDER ''ORCID'' [] = []"
    by code_simp+
  have j: "(2::nat) < length ?H" "?H ! 2 = COL_EMAIL" "(3::nat) < length ?H" "?H ! 3 = ''ORCID''"
    by simp_all
  note t = pending_sensitive_fields_masked [OF n o x h d, of "[]" "[]" "''out.csv''" Map.empty]
  from t obtain tab where
    tab: "snd (prepare_public_csv ?H ([] @ ?r # []) ''out.csv'' Map.empty) ''out.csv'' = Some tab"
      "\<forall>j < length ?H. ?H ! j \<in> set COLS_SENSITIVE \<longrightarrow>
         tab ! Suc (length (public_segment ([] @ ?r # [])) + length (pending_segment [])) ! j =
           dict_get PLACEHOLDER (?H ! j) []"
    by blast
  from tab(2) j(1,2) s(1) have
    "tab ! Suc (length (public_segment ([] @ ?r # [])) + length (pending_segment [])) ! 2 =
       dict_get PLACEHOLDER COL_EMAIL []"
    by metis
  then have 2: "tab ! Suc (length (public_segment ([] @ ?r # [])) + length (pending_segment [])) ! 2 =
       ''membre@rsn-placeholder.ca''"
    unfolding g .
  from tab(2) j(3,4) s(2) have
    "tab ! Suc (length (public_segment ([] @ ?r # [])) + length (pending_segment [])) ! 3 =
       dict_get PLACEHOLDER ''ORCID'' []"
    by metis
  then have 3: "tab ! Suc (length (public_segment ([] @ ?r # [])) + length (pending_segment [])) ! 3 = []"
    unfolding g .
  from n o x d tab(1) 2 3 show ?thesis by blast
qed

text \<open>
  C10. For a pending row, the masked record has exactly the keys of the row: the loop
  over the sensitive columns overwrites keys that are there and adds none. In the row of
  the written table that stands for the record, the cell under a header that is not a key
  of the row is the empty string; this holds for the primary e-mail column too, which is
  sensitive and has a non-empty placeholder.
\<close>

theorem redactor_adds_no_key:
  fixes r :: pydict and xs ys :: "pydict list" and headers :: "string list"
  defines "rows \<equiv> xs @ r # ys"
  defines "i \<equiv> length (pending_segment xs)"
  defines "m \<equiv> pending_segment rows ! i"
  defines "row \<equiv> Suc (length (public_segment rows) + i)"
  assumes "\<not> no_name r" "\<not> startswith (consent r) ''oui''" "\<not> startswith (consent r) ''non''"
    and "COL_PRENOM \<in> set headers" "COL_NOM \<in> set headers" "COL_CONSENT \<in> set headers"
  shows "dom m = dom r
       \<and> (\<forall>f. r f = None \<longrightarrow> m f = None)
       \<and> (\<exists>tab. snd (prepare_public_csv headers rows output_path fs) output_path = Some tab
             \<and> row < length tab
             \<and> tab ! row = dict_to_list headers m
             \<and> (\<forall>j < length headers. r (headers ! j) = None \<longrightarrow> tab ! row ! j = []))
       \<and> COL_EMAIL \<in> set COLS_SENSITIVE
       \<and> dict_get PLACEHOLDER COL_EMAIL [] \<noteq> []"
proof -
  have p: "is_pending r"
    using assms(5-7) by (simp add: is_pending_iff)
  have i: "i < length (pending_segment rows)"
    unfolding i_def rows_def using p by (rule pending_segment_nth)
  have m: "m = masked_of r"
    unfolding m_def i_def rows_def using p by (rule pending_segment_nth)
  have 1: "dom m = dom r"
    unfolding m by (rule dom_masked_of)
  have 2: "\<forall>f. r f = None \<longrightarrow> m f = None"
    unfolding m by (simp add: masked_of_apply)
  from pending_row_written [OF assms(8-10) i, of output_path fs]
  obtain tab where
    tab: "snd (prepare_public_csv headers rows output_path fs) output_path = Some tab"
      "row < length tab" "tab ! row = dict_to_list headers m"
    unfolding row_def m_def by blast
  have 3: "tab ! row ! j = []" if "j < length headers" "r (headers ! j) = None" for j
    unfolding tab(3) using that 2 by (simp add: dict_to_list_nth)
  have 4: "COL_EMAIL \<in> set COLS_SENSITIVE"
    by code_simp
  have 5: "dict_get PLACEHOLDER COL_EMAIL [] \<noteq> []"
    by (simp add: placeholder_get)
  from 1 2 tab 3 4 5 show ?thesis by blast
qed

theorem redactor_adds_no_key_witness:
  "\<not> no_name [COL_PRENOM \<mapsto> ''Cy'']
   \<and> \<not> startswith (consent [COL_PRENOM \<mapsto> ''Cy'']) ''oui''
   \<and> \<not> startswith (consent [COL_PRENOM \<mapsto> ''Cy'']) ''non''
   \<and> COL_PRENOM \<in> set [COL_PRENOM, COL_NOM, COL_EMAIL, COL_CONSENT]
   \<and> COL_NOM \<in> set [COL_PRENOM, COL_NOM, COL_EMAIL, COL_CONSENT]
   \<and> COL_CONSENT \<in> set [COL_PRENOM, COL_NOM, COL_EMAIL, COL_CONSENT]
   \<and> [COL_PRENOM \<mapsto> ''Cy''] COL_EMAIL = None
   \<and> dom (pending_segment ([] @ [COL_PRENOM \<mapsto> ''Cy''] # []) ! length (pending_segment []))
       = dom [COL_PRENOM \<mapsto> ''Cy'']
   \<and> (\<exists>tab. snd (prepare_public_csv [COL_PRENOM, COL_NOM, COL_EMAIL, COL_CONSENT]
                   ([] @ [COL_PRENOM \<mapsto> ''Cy''] # []) ''out.csv'' Map.empty) ''out.csv''
                = Some tab
         \<and> tab ! Suc (length (public_segment ([] @ [COL_PRENOM \<mapsto> ''Cy''] # []))
                  + length (pending_segment [])) ! 2 = [])"
proof -
  let ?H = "[COL_PRENOM, COL_NOM, COL_EMAIL, COL_CONSENT]"
  let ?r = "[COL_PRENOM \<mapsto> ''Cy'']"
  have n: "\<not> no_name ?r" and o: "\<not> startswith (consent ?r) ''oui''"
    and x: "\<not> startswith (consent ?r) ''non''"
    by code_simp+
  have h: "COL_PRENOM \<in> set ?H" "COL_NOM \<in> set ?H" "COL_CONSENT \<in> set ?H"
    by simp_all
  have k: "?r COL_EMAIL = None"
    by code_simp
  have j: "(2::nat) < length ?H" "?H ! 2 = COL_EMAIL"
    by simp_all
  note t = redactor_adds_no_key [OF n o x h, of "[]" "[]" "''out.csv''" Map.empty]
  from t have 1: "dom (pending_segment ([] @ ?r # []) ! length (pending_segment [])) = dom ?r"
    by blast
  from t obtain tab where
    tab: "snd (prepare_public_csv ?H ([] @ ?r # []) ''out.csv'' Map.empty) ''out.csv'' = Some tab"
      "\<forall>j < length ?H. ?r (?H ! j) = None \<longrightarrow>
         tab ! Suc (length (public_segment ([] @ ?r # [])) + length (pending_segment [])) ! j = []"
    by blast
  from tab(2) j k have
    2: "tab ! Suc (length (public_segment ([] @ ?r # [])) + length (pending_segment [])) ! 2 = []"
    by metis
  from n o x h k 1 tab(1) 2 show ?thesis by blast
qed

text \<open>
  C4. The masking of a pending row works on a copy. After the pass the store begins with
  the input rows exactly as they were given, the row itself among them; the masked record
  is another object, created during the pass; it agrees with the row on every key that is
  not a sensitive field; and it is the same record wherever the row stands among the
  input rows and whatever the other rows are. No step of the loop changes an object that
  was there before the step.
\<close>

theorem redactor_pure_no_mutation:
  fixes r :: pydict and xs ys :: "pydict list"
  defines "rows \<equiv> xs @ r # ys"
  defines "s \<equiv> categorize rows"
  defines "i \<equiv> length (pending_segment xs)"
  defines "m \<equiv> pending_segment rows ! i"
  assumes "\<not> no_name r" "\<not> startswith (consent r) ''oui''" "\<not> startswith (consent r) ''non''"
  shows "take (length rows) (heap s) = rows
       \<and> heap s ! length xs = r
       \<and> i < length (pending_rows s)
       \<and> length rows \<le> pending_rows s ! i
       \<and> pending_rows s ! i < length (heap s)
       \<and> heap s ! (pending_rows s ! i) = m
       \<and> (\<forall>k. k \<notin> set COLS_SENSITIVE \<longrightarrow> m k = r k)
       \<and> (\<forall>xs' ys'. pending_segment (xs' @ r # ys') ! length (pending_segment xs') = m)
       \<and> (\<forall>st a. take (length (heap st)) (heap (visit a st)) = heap st)"
proof -
  let ?ms = "map masked_of (filter is_pending rows)"
  have p: "is_pending r"
    using assms(5-7) by (simp add: is_pending_iff)
  have hs: "heap s = rows @ ?ms"
    and pe: "pending_rows s = [length rows ..< length rows + length (filter is_pending rows)]"
    unfolding s_def by (simp_all add: categorize_closed)
  have ps: "pending_segment rows = ?ms"
    by (rule pending_segment_closed)
  have "i < length (pending_segment rows)"
    unfolding i_def rows_def using p by (rule pending_segment_nth)
  then have i: "i < length ?ms"
    unfolding ps .
  have m: "m = masked_of r"
    unfolding m_def i_def rows_def using p by (rule pending_segment_nth)
  have 1: "take (length rows) (heap s) = rows"
    unfolding hs by simp
  have 2: "heap s ! length xs = r"
    unfolding hs rows_def by (simp add: nth_append)
  have 3: "i < length (pending_rows s)"
    unfolding pe using i by simp
  have at: "pending_rows s ! i = length rows + i"
    unfolding pe using i by simp
  have 4: "length rows \<le> pending_rows s ! i"
    unfolding at by simp
  have 5: "pending_rows s ! i < length (heap s)"
    unfolding at hs using i by simp
  have 6: "heap s ! (pending_rows s ! i) = m"
    unfolding at hs m_def ps by simp
  have 7: "\<forall>k. k \<notin> set COLS_SENSITIVE \<longrightarrow> m k = r k"
    unfolding m by (simp add: masked_of_apply)
  have 8: "\<forall>xs' ys'. pending_segment (xs' @ r # ys') ! length (pending_segment xs') = m"
    unfolding m using p by (simp add: pending_segment_nth)
  from 1 2 3 4 5 6 7 8 visit_keeps_objects show ?thesis by blast
qed

theorem redactor_pure_no_mutation_witness:
  "\<not> no_name [COL_PRENOM \<mapsto> ''Cy'', COL_EMAIL \<mapsto> ''c@x.com'', COL_TYPE \<mapsto> ''Partenaire'']
   \<and> \<not> startswith (consent [COL_PRENOM \<mapsto> ''Cy'', COL_EMAIL \<mapsto> ''c@x.com'',
                              COL_TYPE \<mapsto> ''Partenaire'']) ''oui''
   \<and> \<not> startswith (consent [COL_PRENOM \<mapsto> ''Cy'', COL_EMAIL \<mapsto> ''c@x.com'',
                              COL_TYPE \<mapsto> ''Partenaire'']) ''non''
   \<and> heap (categorize ([] @ [COL_PRENOM \<mapsto> ''Cy'', COL_EMAIL \<mapsto> ''c@x.com'',
                                COL_TYPE \<mapsto> ''Partenaire''] # [])) ! length ([] :: pydict list)
       = [COL_PRENOM \<mapsto> ''Cy'', COL_EMAIL \<mapsto> ''c@x.com'', COL_TYPE \<mapsto> ''Partenaire'']
   \<and> (pending_segment ([] @ [COL_PRENOM \<mapsto> ''Cy'', COL_EMAIL \<mapsto> ''c@x.com'',
                                COL_TYPE \<mapsto> ''Partenaire''] # [])
        ! length (pending_segment [])) COL_TYPE = Some ''Partenaire''"
proof -
  let ?r = "[COL_PRENOM \<mapsto> ''Cy'', COL_EMAIL \<mapsto> ''c@x.com'', COL_TYPE \<mapsto> ''Partenaire'']"
  have n: "\<not> no_name ?r" and o: "\<not> startswith (consent ?r) ''oui''"
    and x: "\<not> startswith (consent ?r) ''non''"
    by code_simp+
  have k: "?r COL_TYPE = Some ''Partenaire''"
    by simp
  note t = redactor_pure_no_mutation [OF n o x, of "[]" "[]"]
  from t have 1: "heap (categorize ([] @ ?r # [])) ! length ([] :: pydict list) = ?r"
    by blast
  from t have "\<forall>k. k \<notin> set COLS_SENSITIVE \<longrightarrow>
      (pending_segment ([] @ ?r # []) ! length (pending_segment [])) k = ?r k"
    by blast
  with structural_not_sensitive(4)
  have "(pending_segment ([] @ ?r # []) ! length (pending_segment [])) COL_TYPE = ?r COL_TYPE"
    by blast
  then have 2: "(pending_segment ([] @ ?r # []) ! length (pending_segment [])) COL_TYPE
                = Some ''Partenaire''"
    unfolding k .
  from n o x 1 2 show ?thesis by blast
qed

text \<open>
  C9. The example of the specification lists, for each of its three rows, the fields that
  decide the outcome; the rows are member rows, so each has a name (a row without one
  is discarded, as the property before the example says). With a first name on each row
  (consent "Oui" with e-mail and the regular type; consent "Non" with the student type;
  empty consent with e-mail and the partner type, the types spelt as in the example),
  under the headers first name, last name, e-mail, type, consent, the export is: the
  header row, the first row unchanged, the third row with the placeholder address in the
  e-mail cell, and the statistics row with the counters 1,0,1,0.
\<close>

theorem example_three_rows_with_names:
  "prepare_public_csv [COL_PRENOM, COL_NOM, COL_EMAIL, COL_TYPE, COL_CONSENT]
     [[COL_PRENOM \<mapsto> ''Ada'', COL_CONSENT \<mapsto> ''Oui'', COL_EMAIL \<mapsto> ''a@x.com'',
       COL_TYPE \<mapsto> ''R'' @ [CHR 0xE9] @ ''gulier''],
      [COL_PRENOM \<mapsto> ''Bob'', COL_CONSENT \<mapsto> ''Non'', COL_TYPE \<mapsto> [CHR 0xC9] @ ''tudiant''],
      [COL_PRENOM \<mapsto> ''Cy'', COL_CONSENT \<mapsto> [], COL_EMAIL \<mapsto> ''b@x.com'',
       COL_TYPE \<mapsto> ''Partenaire'']]
     ''public_members.csv'' Map.empty
   = (Inr (),
      [''public_members.csv'' \<mapsto>
         [[COL_PRENOM, COL_NOM, COL_EMAIL, COL_TYPE, COL_CONSENT],
          [''Ada'', [], ''a@x.com'', ''R'' @ [CHR 0xE9] @ ''gulier'', ''Oui''],
          [''Cy'', [], ''membre@rsn-placeholder.ca'', ''Partenaire'', []],
          [STATS_ROW_MARKER, [], ''1,0,1,0'', [], ''stats'']]])"
proof -
  let ?H = "[COL_PRENOM, COL_NOM, COL_EMAIL, COL_TYPE, COL_CONSENT]"
  let ?r1 = "[COL_PRENOM \<mapsto> ''Ada'', COL_CONSENT \<mapsto> ''Oui'', COL_EMAIL \<mapsto> ''a@x.com'',
              COL_TYPE \<mapsto> ''R'' @ [CHR 0xE9] @ ''gulier'']"
  let ?r2 = "[COL_PRENOM \<mapsto> ''Bob'', COL_CONSENT \<mapsto> ''Non'', COL_TYPE \<mapsto> [CHR 0xC9] @ ''tudiant'']"
  let ?r3 = "[COL_PRENOM \<mapsto> ''Cy'', COL_CONSENT \<mapsto> [], COL_EMAIL \<mapsto> ''b@x.com'',
              COL_TYPE \<mapsto> ''Partenaire'']"
  have d1: "is_public ?r1" "\<not> is_excluded ?r1" "\<not> is_pending ?r1"
    by code_simp+
  have d2: "\<not> is_public ?r2" "is_excluded ?r2" "\<not> is_pending ?r2"
    by code_simp+
  have d3: "\<not> is_public ?r3" "\<not> is_excluded ?r3" "is_pending ?r3"
    by code_simp+
  have c: "count_excluded (type_adh ?r2)
             \<lparr>st_total = 0, st_regulier = 0, st_etudiant = 0, st_partenaire = 0\<rparr>
           = \<lparr>st_total = 1, st_regulier = 0, st_etudiant = 1, st_partenaire = 0\<rparr>"
    by code_simp
  have e: "excluded_stats (categorize [?r1, ?r2, ?r3]) =
           \<lparr>st_total = 1, st_regulier = 0, st_etudiant = 1, st_partenaire = 0\<rparr>"
    using d1 d2 d3 c by (simp add: excluded_stats_closed)
  have c1: "dict_to_list ?H ?r1 = [''Ada'', [], ''a@x.com'', ''R'' @ [CHR 0xE9] @ ''gulier'', ''Oui'']"
    by code_simp
  have c2: "dict_to_list ?H (masked_of ?r3) =
            [''Cy'', [], ''membre@rsn-placeholder.ca'', ''Partenaire'', []]"
    by code_simp
  have c3: "dict_to_list ?H
              (stats_row_dict ?H \<lparr>st_total = 1, st_regulier = 0, st_etudiant = 1, st_partenaire = 0\<rparr>)
            = [STATS_ROW_MARKER, [], ''1,0,1,0'', [], ''stats'']"
    by code_simp
  have "prepare_public_csv ?H [?r1, ?r2, ?r3] ''public_members.csv'' Map.empty =
     (Inr (),
      [''public_members.csv'' \<mapsto>
        ?H # map (dict_to_list ?H) (filter is_public [?r1, ?r2, ?r3])
          @ map (dict_to_list ?H) (map masked_of (filter is_pending [?r1, ?r2, ?r3]))
          @ [dict_to_list ?H (stats_row_dict ?H (excluded_stats (categorize [?r1, ?r2, ?r3])))]])"
    by (rule prepare_public_csv_closed) simp_all
  then show ?thesis
    unfolding e using d1 d2 d3 c1 c2 c3 by simp
qed

end
